theory Spec2Isabelle
  imports Main "HOL-Library.Multiset"
begin

section \<open>Data model\<close>

text \<open>
  The content pipeline of the repository: the sequencer flattens a markdown parse tree
  into a sequence of elements, the grouping engine and the type indexer each build a
  view of that sequence, and the validator inspects the three.

  The sources hold two versions of the grouping engine (both in
  \<^verbatim>\<open>src/unnamed/part_003\<close>), two versions of the sequencer (both in
  \<^verbatim>\<open>src/unnamed/part_004\<close>) and two copies of the type indexer
  (\<^verbatim>\<open>src/src/parser/types.js\<close> and \<^verbatim>\<open>src/unnamed/part_005\<close>). Each is modelled;
  a name ending in \<open>_v1\<close> belongs to the version that comes first in its file (for
  the type indexer, to \<^verbatim>\<open>types.js\<close>), a name ending in \<open>_v2\<close> to the other.
\<close>

text \<open>
  The content elements produced by the sequencer (\<^verbatim>\<open>processNode\<close>) are JavaScript
  objects tagged by a \<^verbatim>\<open>type\<close> string. Each variant carries the fields the source
  writes for it. Selector names follow the source, with a letter in front where the
  name is also a field of a group (\<^verbatim>\<open>content\<close>, \<^verbatim>\<open>items\<close>, \<^verbatim>\<open>title\<close>).
\<close>

datatype elemType = THeading | TParagraph | TImage | TList | TCode | TDivider

datatype role = Background | Icon | Gallery | Content

datatype element =
    Heading (level: nat) (econtent: string) (position: nat) (labels: "string list")
  | Paragraph (econtent: string) (position: nat)
  | ImageE (role: role) (src: "string option") (alt: string) (ititle: "string option")
      (position: nat)
  | Divider (position: nat)
  | ListE (ordered: "bool option") (litems: "string list") (position: nat)
  | Code (language: "string option") (code: "string option") (position: nat)

fun etype :: "element \<Rightarrow> elemType" where
  "etype (Heading l c p ls) = THeading"
| "etype (Paragraph c p) = TParagraph"
| "etype (ImageE r s a t p) = TImage"
| "etype (Divider p) = TDivider"
| "etype (ListE b xs p) = TList"
| "etype (Code l c p) = TCode"

text \<open>The strings the source compares \<^verbatim>\<open>element.type\<close> and \<^verbatim>\<open>element.role\<close> with.\<close>

fun typeName :: "elemType \<Rightarrow> string" where
  "typeName THeading = ''heading''"
| "typeName TParagraph = ''paragraph''"
| "typeName TImage = ''image''"
| "typeName TList = ''list''"
| "typeName TCode = ''code''"
| "typeName TDivider = ''divider''"

fun roleName :: "role \<Rightarrow> string" where
  "roleName Background = ''background''"
| "roleName Icon = ''icon''"
| "roleName Gallery = ''gallery''"
| "roleName Content = ''content''"

text \<open>
  A group is the object built by \<^verbatim>\<open>createNewGroup\<close>:
  \<^verbatim>\<open>{headings: {eyebrow, title, subtitle}, content: [], metadata: {level, hasMedia, contentTypes}}\<close>.
  The first version of the grouping file has no \<^verbatim>\<open>hasMedia\<close> field; there it is
  \<open>None\<close>.
\<close>

record headings =
  eyebrow :: "element option"
  title :: "element option"
  subtitle :: "element option"

record metadata =
  mlevel :: "nat option"
  hasMedia :: "bool option"
  contentTypes :: "elemType list"

record group =
  headings :: headings
  content :: "element list"
  metadata :: metadata

record "structure" =
  main :: "group option"
  items :: "group list"

datatype error = TypeError

text \<open>
  \<^verbatim>\<open>heading.level <= (currentGroup.metadata.level || Infinity)\<close>: a level that is
  \<^verbatim>\<open>null\<close> or \<^verbatim>\<open>0\<close> is falsy and gives way to \<^verbatim>\<open>Infinity\<close>.
\<close>

fun leLevelOrInfinity :: "nat \<Rightarrow> nat option \<Rightarrow> bool" where
  "leLevelOrInfinity n None = True"
| "leLevelOrInfinity n (Some l) = (if l \<noteq> 0 then n \<le> l else True)"

definition isHeading :: "element \<Rightarrow> bool" where
  "isHeading el = (etype el = THeading)"

text \<open>\<^verbatim>\<open>sequence.slice(position + 1).find((el) => el.type === "heading")\<close>\<close>

definition nextHeading :: "element list \<Rightarrow> nat \<Rightarrow> element option" where
  "nextHeading sequence pos = find isHeading (drop (pos + 1) sequence)"

section \<open>Grouping engine, second version (\<^verbatim>\<open>part_003\<close>, lines 181 to 382)\<close>

definition createNewGroup_v2 :: "element option \<Rightarrow> group" where
  "createNewGroup_v2 headingElement =
     \<lparr> headings = \<lparr> eyebrow = None, title = None, subtitle = None \<rparr>,
       content = [],
       metadata = \<lparr> mlevel = (case headingElement of None \<Rightarrow> None | Some h \<Rightarrow> Some (level h)),
                    hasMedia = Some False, contentTypes = [] \<rparr> \<rparr>"

definition isEyebrowPattern :: "element \<Rightarrow> element list \<Rightarrow> nat \<Rightarrow> bool" where
  "isEyebrowPattern heading sequence pos =
     (case nextHeading sequence pos of
        Some nh \<Rightarrow> level nh < level heading
      | None \<Rightarrow> False)"

definition shouldStartNewGroup_v2 ::
  "element \<Rightarrow> group option \<Rightarrow> element list \<Rightarrow> nat \<Rightarrow> bool" where
  "shouldStartNewGroup_v2 heading currentGroup sequence pos =
     (case currentGroup of
        None \<Rightarrow> True
      | Some g \<Rightarrow>
          if content g = [] \<and> title (headings g) = None then True
          else if isEyebrowPattern heading sequence pos then False
          else (case mlevel (metadata g) of
                  None \<Rightarrow> True
                | Some l \<Rightarrow>
                    if l \<noteq> 0 then content g \<noteq> [] \<and> level heading \<le> l else True))"

definition addHeadingToGroup_v2 :: "group \<Rightarrow> element \<Rightarrow> group" where
  "addHeadingToGroup_v2 g heading =
     (case title (headings g) of
        None \<Rightarrow>
          g\<lparr> headings := (headings g)\<lparr> title := Some heading \<rparr>,
             metadata := (metadata g)\<lparr> mlevel := Some (level heading) \<rparr> \<rparr>
      | Some t \<Rightarrow>
          if level heading < level t then
            g\<lparr> headings := (headings g)\<lparr> subtitle := Some t, title := Some heading \<rparr>,
               metadata := (metadata g)\<lparr> mlevel := Some (level heading) \<rparr> \<rparr>
          else if level heading > level t then
            (if content g = [] \<and> subtitle (headings g) = None then
               g\<lparr> headings := (headings g)\<lparr> eyebrow := Some t, title := Some heading \<rparr>,
                  metadata := (metadata g)\<lparr> mlevel := Some (level heading) \<rparr> \<rparr>
             else
               g\<lparr> headings := (headings g)\<lparr> subtitle := Some heading \<rparr> \<rparr>)
          else g)"

definition isMainGroup_v2 :: "group \<Rightarrow> bool" where
  "isMainGroup_v2 g =
     (case title (headings g) of
        None \<Rightarrow> False
      | Some t \<Rightarrow> level t = 1 \<or> content g \<noteq> [])"

text \<open>
  \<^verbatim>\<open>contentTypes\<close> is a \<^verbatim>\<open>Set\<close> filled in content order and then turned into an
  array: each type once, at its first occurrence.
\<close>

fun insertionOrder :: "'a list \<Rightarrow> 'a list \<Rightarrow> 'a list" where
  "insertionOrder seen [] = seen"
| "insertionOrder seen (x # xs) =
     (if x \<in> set seen then insertionOrder seen xs else insertionOrder (seen @ [x]) xs)"

definition addGroupToStructure_v2 :: "group \<Rightarrow> structure \<Rightarrow> structure" where
  "addGroupToStructure_v2 g st =
     (let g' = g\<lparr> metadata := (metadata g)
                 \<lparr> hasMedia := Some (list_ex (\<lambda>el. etype el = TImage) (content g)),
                   contentTypes := insertionOrder (contentTypes (metadata g))
                                     (map etype (content g)) \<rparr> \<rparr>
      in if main st = None \<and> isMainGroup_v2 g'
         then st\<lparr> main := Some g' \<rparr>
         else st\<lparr> items := items st @ [g'] \<rparr>)"

definition closeGroup_v2 :: "group option \<Rightarrow> structure \<Rightarrow> structure" where
  \<comment> \<open>\<^verbatim>\<open>if (currentGroup) { addGroupToStructure(currentGroup, structure); }\<close>\<close>
  "closeGroup_v2 currentGroup st =
     (case currentGroup of None \<Rightarrow> st | Some g \<Rightarrow> addGroupToStructure_v2 g st)"

text \<open>
  One turn of the \<^verbatim>\<open>for\<close> loop of \<^verbatim>\<open>processGroups\<close>, on the pair of the loop's
  variables \<^verbatim>\<open>currentGroup\<close> and \<^verbatim>\<open>structure\<close>. Calling \<^verbatim>\<open>addHeadingToGroup\<close> with
  a \<^verbatim>\<open>null\<close> group would read a property of \<^verbatim>\<open>null\<close>; that is the error branch.
\<close>

definition groupStep_v2 ::
  "element list \<Rightarrow> nat \<Rightarrow> element \<Rightarrow> group option \<times> structure
     \<Rightarrow> error + (group option \<times> structure)" where
  "groupStep_v2 sequence i element s =
     (case s of (currentGroup, st) \<Rightarrow>
        if etype element = TDivider then
          Inr (Some (createNewGroup_v2 None), closeGroup_v2 currentGroup st)
        else if etype element = THeading then
          (if shouldStartNewGroup_v2 element currentGroup sequence i then
             Inr (Some (createNewGroup_v2 (Some element)), closeGroup_v2 currentGroup st)
           else
             (case currentGroup of
                None \<Rightarrow> Inl TypeError
              | Some g \<Rightarrow> Inr (Some (addHeadingToGroup_v2 g element), st)))
        else
          (let g = (case currentGroup of None \<Rightarrow> createNewGroup_v2 None | Some g \<Rightarrow> g)
           in Inr (Some (g\<lparr> content := content g @ [element] \<rparr>), st)))"

fun groupLoop_v2 ::
  "element list \<Rightarrow> nat \<Rightarrow> element list \<Rightarrow> group option \<times> structure
     \<Rightarrow> error + (group option \<times> structure)" where
  "groupLoop_v2 sequence i [] s = Inr s"
| "groupLoop_v2 sequence i (element # rest) s =
     (case groupStep_v2 sequence i element s of
        Inl e \<Rightarrow> Inl e
      | Inr s' \<Rightarrow> groupLoop_v2 sequence (Suc i) rest s')"

definition processGroups_v2 :: "element list \<Rightarrow> error + structure" where
  "processGroups_v2 sequence =
     (case groupLoop_v2 sequence 0 sequence (None, \<lparr> main = None, items = [] \<rparr>) of
        Inl e \<Rightarrow> Inl e
      | Inr (currentGroup, st) \<Rightarrow> Inr (closeGroup_v2 currentGroup st))"

section \<open>Grouping engine, first version (\<^verbatim>\<open>part_003\<close>, lines 1 to 179)\<close>

definition createNewGroup_v1 :: group where
  "createNewGroup_v1 =
     \<lparr> headings = \<lparr> eyebrow = None, title = None, subtitle = None \<rparr>,
       content = [],
       metadata = \<lparr> mlevel = None, hasMedia = None, contentTypes = [] \<rparr> \<rparr>"

definition shouldStartNewGroup_v1 ::
  "element \<Rightarrow> group option \<Rightarrow> element list \<Rightarrow> nat \<Rightarrow> bool" where
  "shouldStartNewGroup_v1 heading currentGroup sequence pos =
     (case currentGroup of
        None \<Rightarrow> True
      | Some g \<Rightarrow>
          if content g = [] \<and> title (headings g) = None then False
          else if level heading = 1 \<and> title (headings g) \<noteq> None then True
          else if level heading = 3 \<and>
                  (case nextHeading sequence pos of
                     Some nh \<Rightarrow> level nh < level heading | None \<Rightarrow> False)
               then False
          else if (case title (headings g) of
                     None \<Rightarrow> False
                   | Some t \<Rightarrow> level heading = level t \<and>
                       (content g \<noteq> [] \<or> subtitle (headings g) \<noteq> None))
               then True
          else leLevelOrInfinity (level heading) (mlevel (metadata g)))"

text \<open>
  \<^verbatim>\<open>isEyebrowHeading\<close> is declared in the first version and called nowhere. It looks
  at the elements after \<open>pos\<close>, answers at the first heading, and gives up at the
  first element that is neither a heading nor an image.
\<close>

fun eyebrowScan :: "element \<Rightarrow> element list \<Rightarrow> bool" where
  "eyebrowScan heading [] = False"
| "eyebrowScan heading (next # rest) =
     (if etype next = THeading then level next < level heading
      else if etype next \<noteq> TImage then False
      else eyebrowScan heading rest)"

definition isEyebrowHeading :: "element \<Rightarrow> element list \<Rightarrow> nat \<Rightarrow> bool" where
  "isEyebrowHeading heading sequence pos = eyebrowScan heading (drop (pos + 1) sequence)"

text \<open>
  \<^verbatim>\<open>addHeadingToGroup\<close> of the first version also returns the name of the slot it
  filled; \<^verbatim>\<open>processGroups\<close> discards it, and the model returns the group only.
\<close>

definition addHeadingToGroup_v1 :: "group \<Rightarrow> element \<Rightarrow> group" where
  "addHeadingToGroup_v1 g heading =
     (case title (headings g) of
        None \<Rightarrow>
          (if level heading = 3 \<and> eyebrow (headings g) = None
           then g\<lparr> headings := (headings g)\<lparr> eyebrow := Some heading \<rparr>,
                   metadata := (metadata g)\<lparr> mlevel := Some (level heading) \<rparr> \<rparr>
           else g\<lparr> headings := (headings g)\<lparr> title := Some heading \<rparr>,
                   metadata := (metadata g)\<lparr> mlevel := Some (level heading) \<rparr> \<rparr>)
      | Some t \<Rightarrow>
          if subtitle (headings g) = None \<and> level heading > level t
          then g\<lparr> headings := (headings g)\<lparr> subtitle := Some heading \<rparr> \<rparr>
          else g\<lparr> content := content g @ [heading] \<rparr>)"

definition isMainGroup_v1 :: "group \<Rightarrow> bool" where
  "isMainGroup_v1 g =
     ((case title (headings g) of None \<Rightarrow> False | Some t \<Rightarrow> level t = 1) \<or>
      (case eyebrow (headings g) of None \<Rightarrow> False | Some e \<Rightarrow> level e = 3))"

definition addGroupToStructure_v1 :: "group \<Rightarrow> structure \<Rightarrow> structure" where
  "addGroupToStructure_v1 g st =
     (let g' = g\<lparr> metadata := (metadata g)
                 \<lparr> contentTypes := insertionOrder (contentTypes (metadata g)) [] \<rparr> \<rparr>
      in if main st = None \<and> (isMainGroup_v1 g' \<or> items st = [])
         then st\<lparr> main := Some g' \<rparr>
         else st\<lparr> items := items st @ [g'] \<rparr>)"

definition closeGroup_v1 :: "group option \<Rightarrow> structure \<Rightarrow> structure" where
  "closeGroup_v1 currentGroup st =
     (case currentGroup of None \<Rightarrow> st | Some g \<Rightarrow> addGroupToStructure_v1 g st)"

definition groupStep_v1 ::
  "element list \<Rightarrow> nat \<Rightarrow> element \<Rightarrow> group option \<times> structure
     \<Rightarrow> group option \<times> structure" where
  "groupStep_v1 sequence i element s =
     (case s of (currentGroup, st) \<Rightarrow>
        if etype element = TDivider then
          (Some createNewGroup_v1, closeGroup_v1 currentGroup st)
        else
          (let s1 = (if etype element = THeading \<and>
                        shouldStartNewGroup_v1 element currentGroup sequence i
                     then (Some createNewGroup_v1, closeGroup_v1 currentGroup st)
                     else (currentGroup, st));
               g = (case fst s1 of None \<Rightarrow> createNewGroup_v1 | Some g \<Rightarrow> g)
           in (Some (if etype element = THeading
                     then addHeadingToGroup_v1 g element
                     else g\<lparr> content := content g @ [element] \<rparr>),
               snd s1)))"

fun groupLoop_v1 ::
  "element list \<Rightarrow> nat \<Rightarrow> element list \<Rightarrow> group option \<times> structure
     \<Rightarrow> group option \<times> structure" where
  "groupLoop_v1 sequence i [] s = s"
| "groupLoop_v1 sequence i (element # rest) s =
     groupLoop_v1 sequence (Suc i) rest (groupStep_v1 sequence i element s)"

text \<open>
  The second pass of the first version: with no main group and a first item whose
  title has level 1, that item becomes the main group.
\<close>

definition secondPass_v1 :: "structure \<Rightarrow> structure" where
  "secondPass_v1 st =
     (if main st = None \<and> items st \<noteq> [] then
        (case title (headings (hd (items st))) of
           None \<Rightarrow> st
         | Some t \<Rightarrow>
             if level t = 1
             then st\<lparr> main := Some (hd (items st)), items := tl (items st) \<rparr>
             else st)
      else st)"

definition processGroups_v1 :: "element list \<Rightarrow> structure" where
  "processGroups_v1 sequence =
     (case groupLoop_v1 sequence 0 sequence (None, \<lparr> main = None, items = [] \<rparr>) of
        (currentGroup, st) \<Rightarrow> secondPass_v1 (closeGroup_v1 currentGroup st))"

section \<open>Measuring a structure\<close>

text \<open>
  The groups of a structure, the main group first, and the elements a group holds: the
  headings in its three slots and its content.
\<close>

definition groupsOf :: "structure \<Rightarrow> group list" where
  "groupsOf st = (case main st of None \<Rightarrow> [] | Some g \<Rightarrow> [g]) @ items st"

definition slotElements :: "headings \<Rightarrow> element list" where
  "slotElements h =
     (case eyebrow h of None \<Rightarrow> [] | Some e \<Rightarrow> [e]) @
     (case title h of None \<Rightarrow> [] | Some e \<Rightarrow> [e]) @
     (case subtitle h of None \<Rightarrow> [] | Some e \<Rightarrow> [e])"

definition groupElements :: "group \<Rightarrow> element list" where
  "groupElements g = slotElements (headings g) @ content g"

definition structureElements :: "structure \<Rightarrow> element list" where
  "structureElements st = concat (map groupElements (groupsOf st))"

definition isDivider :: "element \<Rightarrow> bool" where
  "isDivider el = (etype el = TDivider)"

text \<open>
  The count of the conservation property: content lengths over the main group and the
  items, plus the headings placed in slots, plus the dividers of the input.
\<close>

definition accountedFor :: "element list \<Rightarrow> structure \<Rightarrow> nat" where
  "accountedFor sequence st =
     sum_list (map (\<lambda>g. length (content g)) (groupsOf st))
     + sum_list (map (\<lambda>g. length (slotElements (headings g))) (groupsOf st))
     + length (filter isDivider sequence)"

definition stateElements_v1 :: "group option \<times> structure \<Rightarrow> element multiset" where
  "stateElements_v1 s =
     mset (structureElements (snd s)) +
     (case fst s of None \<Rightarrow> {#} | Some g \<Rightarrow> mset (groupElements g))"

definition emptyHeadings :: headings where
  "emptyHeadings = \<lparr> eyebrow = None, title = None, subtitle = None \<rparr>"

text \<open>An element that is neither a heading nor a divider.\<close>

definition plainElement :: "element \<Rightarrow> bool" where
  "plainElement el = (etype el \<noteq> THeading \<and> etype el \<noteq> TDivider)"

text \<open>The hero section of the parser test: an image, then headings of level 3, 1 and 2, then a paragraph.\<close>

definition heroSequence :: "element list" where
  "heroSequence =
     [ImageE Content (Some ''./hero-bg.jpg'') ''WELCOME'' None 0,
      Heading 3 ''WELCOME'' 1 [],
      Heading 1 ''Title'' 2 [],
      Heading 2 ''Subtitle'' 3 [],
      Paragraph ''Body'' 4]"

text \<open>
  The two parts of what a structure holds, and the same for the state of the loop of
  the second version: the content of the groups, and the headings in their slots.
\<close>

definition contentElements :: "structure \<Rightarrow> element list" where
  "contentElements st = concat (map content (groupsOf st))"

definition placedHeadings :: "structure \<Rightarrow> element list" where
  "placedHeadings st = concat (map (\<lambda>g. slotElements (headings g)) (groupsOf st))"

definition stateContents :: "group option \<times> structure \<Rightarrow> element multiset" where
  "stateContents s =
     mset (contentElements (snd s)) +
     (case fst s of None \<Rightarrow> {#} | Some g \<Rightarrow> mset (content g))"

definition stateHeadings :: "group option \<times> structure \<Rightarrow> element multiset" where
  "stateHeadings s =
     mset (placedHeadings (snd s)) +
     (case fst s of None \<Rightarrow> {#} | Some g \<Rightarrow> mset (slotElements (headings g)))"

section \<open>Parse tree\<close>

text \<open>
  A node of the markdown parse tree is a JavaScript object with a \<^verbatim>\<open>type\<close> string, an
  optional \<^verbatim>\<open>children\<close> array and the properties of its kind. A property that the
  node does not have is \<open>None\<close>; \<^verbatim>\<open>depth\<close> is the number a heading node carries.
\<close>

record props =
  nvalue :: "string option"
  depth :: nat
  nalt :: "string option"
  url :: "string option"
  ntitle :: "string option"
  lang :: "string option"
  nordered :: "bool option"

datatype node = Node (ntype: string) (nprops: props) (children: "node list option")

definition noProps :: props where
  "noProps = \<lparr> nvalue = None, depth = 0, nalt = None, url = None, ntitle = None,
               lang = None, nordered = None \<rparr>"

text \<open>\<^verbatim>\<open>s || null\<close> and the test \<^verbatim>\<open>if (s)\<close> on an optional string: the empty string is falsy.\<close>

fun orNull :: "string option \<Rightarrow> string option" where
  "orNull None = None"
| "orNull (Some s) = (if s = [] then None else Some s)"

fun getTextContent :: "node \<Rightarrow> string" where
  "getTextContent (Node t p cs) =
     (case orNull (nvalue p) of
        Some v \<Rightarrow> v
      | None \<Rightarrow>
          (case cs of
             Some ns \<Rightarrow> concat (map getTextContent ns)
           | None \<Rightarrow> []))"

section \<open>The regular expressions of the sequencer\<close>

text \<open>
  Strings are lists of 8-bit characters, read as the code units below 256. So
  \<^verbatim>\<open>\s\<close> is the tab, the line feed, the vertical tab, the form feed, the carriage
  return, the space and the no-break space; \<^verbatim>\<open>\w\<close> is a letter, a digit or the
  underscore; and \<^verbatim>\<open>.\<close> is any character but the line feed and the carriage return.
\<close>

definition isSpaceChar :: "char \<Rightarrow> bool" where
  "isSpaceChar c = ((of_char c :: nat) \<in> {9, 10, 11, 12, 13, 32, 160})"

definition isWordChar :: "char \<Rightarrow> bool" where
  "isWordChar c =
     (let n = (of_char c :: nat)
      in (48 \<le> n \<and> n \<le> 57) \<or> (65 \<le> n \<and> n \<le> 90) \<or> n = 95 \<or> (97 \<le> n \<and> n \<le> 122))"

definition isLabelChar :: "char \<Rightarrow> bool" where
  \<comment> \<open>the class \<^verbatim>\<open>[\w-]\<close>\<close>
  "isLabelChar c = (isWordChar c \<or> c = CHR ''-'')"

definition isLineTerminator :: "char \<Rightarrow> bool" where
  "isLineTerminator c = ((of_char c :: nat) \<in> {10, 13})"

text \<open>
  A pattern that ends in \<^verbatim>\<open>$\<close> matches a suffix of the string. The regular
  expression engine tries the start positions from the left, so the match is the
  longest suffix that the pattern accepts. \<open>firstMatch\<close> returns the text in front of
  the match together with what the matcher returns for the suffix.
\<close>

fun firstMatch :: "(string \<Rightarrow> 'a option) \<Rightarrow> string \<Rightarrow> string \<Rightarrow> (string \<times> 'a) option" where
  "firstMatch m pre [] = (case m [] of Some r \<Rightarrow> Some (pre, r) | None \<Rightarrow> None)"
| "firstMatch m pre (c # cs) =
     (case m (c # cs) of
        Some r \<Rightarrow> Some (pre, r)
      | None \<Rightarrow> firstMatch m (pre @ [c]) cs)"

text \<open>
  \<^verbatim>\<open>\.[\w-]+(?:\s+\.[\w-]+)*\<close> at the start of a string: the text matched and the
  rest. After a label the next character is no label character, so neither greedy
  loop of the pattern can give back characters and match in another way.
\<close>

function labelGroup :: "string \<Rightarrow> (string \<times> string) option" where
  "labelGroup s =
     (case s of
        [] \<Rightarrow> None
      | c # r \<Rightarrow>
          if c \<noteq> CHR ''.'' \<or> takeWhile isLabelChar r = [] then None
          else
            (let label = c # takeWhile isLabelChar r;
                 r1 = dropWhile isLabelChar r;
                 ws = takeWhile isSpaceChar r1;
                 r2 = dropWhile isSpaceChar r1
             in if ws = [] then Some (label, r1)
                else (case labelGroup r2 of
                        Some (others, r3) \<Rightarrow> Some (label @ ws @ others, r3)
                      | None \<Rightarrow> Some (label, r1))))"
  by pat_completeness auto
termination
  apply (relation "measure length")
   apply simp
  apply (simp add: le_imp_less_Suc order_trans[OF length_dropWhile_le length_dropWhile_le])
  done

declare labelGroup.simps [simp del]

text \<open>\<^verbatim>\<open>/{(\.[\w-]+(?:\s+\.[\w-]+)*)}\s*$/\<close> on a whole suffix: the text of group 1.\<close>

definition labelMarker :: "string \<Rightarrow> string option" where
  "labelMarker s =
     (case s of
        [] \<Rightarrow> None
      | c # r \<Rightarrow>
          if c \<noteq> CHR ''{'' then None
          else (case labelGroup r of
                  None \<Rightarrow> None
                | Some (inner, r1) \<Rightarrow>
                    (case r1 of
                       [] \<Rightarrow> None
                     | d # r2 \<Rightarrow>
                         if d = CHR ''}'' \<and> list_all isSpaceChar r2 then Some inner
                         else None)))"

text \<open>\<^verbatim>\<open>/\s*{\.[\w-]+}\s*$/\<close> on a whole suffix: one label between the braces.\<close>

definition singleLabelMarker :: "string \<Rightarrow> unit option" where
  "singleLabelMarker s =
     (case dropWhile isSpaceChar s of
        c # d # r \<Rightarrow>
          if c = CHR ''{'' \<and> d = CHR ''.'' \<and> takeWhile isLabelChar r \<noteq> [] then
            (case dropWhile isLabelChar r of
               [] \<Rightarrow> None
             | e # r1 \<Rightarrow>
                 if e = CHR ''}'' \<and> list_all isSpaceChar r1 then Some () else None)
          else None
      | _ \<Rightarrow> None)"

text \<open>\<^verbatim>\<open>text.replace(/\s*{\.[\w-]+}\s*$/, "")\<close>: the first match is cut off.\<close>

definition stripLabelMarker :: "string \<Rightarrow> string" where
  "stripLabelMarker s =
     (case firstMatch singleLabelMarker [] s of
        Some (pre, u) \<Rightarrow> pre
      | None \<Rightarrow> s)"

text \<open>\<^verbatim>\<open>str.split(/\s+/)\<close>: the pieces between the runs of white space.\<close>

function splitSpaces :: "string \<Rightarrow> string list" where
  "splitSpaces s =
     (let w = takeWhile (\<lambda>c. \<not> isSpaceChar c) s;
          r = dropWhile (\<lambda>c. \<not> isSpaceChar c) s
      in if r = [] then [w] else w # splitSpaces (dropWhile isSpaceChar r))"
  by pat_completeness auto
termination
proof (relation "measure length")
  show "wf (measure length)" by simp
next
  fix s :: string and w r
  assume r: "r = dropWhile (\<lambda>c. \<not> isSpaceChar c) s" and ne: "r \<noteq> []"
  obtain x xs where rx: "r = x # xs"
    using ne by (cases r) auto
  have "\<not> \<not> isSpaceChar (hd (dropWhile (\<lambda>c. \<not> isSpaceChar c) s))"
    using hd_dropWhile[of "\<lambda>c. \<not> isSpaceChar c" s] r ne by blast
  then have "isSpaceChar (hd r)"
    using r by simp
  then have "isSpaceChar x"
    by (simp add: rx)
  then have "length (dropWhile isSpaceChar r) \<le> length xs"
    by (simp add: rx length_dropWhile_le)
  moreover have "length r \<le> length s"
    unfolding r by (rule length_dropWhile_le)
  ultimately show "(dropWhile isSpaceChar r, s) \<in> measure length"
    by (simp add: rx)
qed

declare splitSpaces.simps [simp del]

text \<open>
  \<^verbatim>\<open>alt.match(/^(background|icon|gallery):\s*(.*)/)\<close>: the role of group 1 and the
  description of group 2, which runs to the end of the line.
\<close>

fun dropPrefix :: "string \<Rightarrow> string \<Rightarrow> string option" where
  "dropPrefix [] s = Some s"
| "dropPrefix (p # ps) [] = None"
| "dropPrefix (p # ps) (c # cs) = (if p = c then dropPrefix ps cs else None)"

definition description :: "string \<Rightarrow> string" where
  "description r = takeWhile (\<lambda>c. \<not> isLineTerminator c) (dropWhile isSpaceChar r)"

definition roleMatch :: "string \<Rightarrow> (role \<times> string) option" where
  "roleMatch a =
     (case dropPrefix ''background:'' a of
        Some r \<Rightarrow> Some (Background, description r)
      | None \<Rightarrow>
          (case dropPrefix ''icon:'' a of
             Some r \<Rightarrow> Some (Icon, description r)
           | None \<Rightarrow>
               (case dropPrefix ''gallery:'' a of
                  Some r \<Rightarrow> Some (Gallery, description r)
                | None \<Rightarrow> None)))"

section \<open>Sequencer, second version (\<^verbatim>\<open>part_004\<close>, lines 151 to 316)\<close>

definition extractLabels_v2 :: "node \<Rightarrow> string list" where
  "extractLabels_v2 n =
     (case firstMatch labelMarker [] (getTextContent n) of
        Some (pre, inner) \<Rightarrow> map (drop 1) (splitSpaces inner)
      | None \<Rightarrow> [])"

definition processImageNode_v2 :: "node \<Rightarrow> nat \<Rightarrow> element" where
  "processImageNode_v2 n pos =
     (let a = (case orNull (nalt (nprops n)) of Some s \<Rightarrow> s | None \<Rightarrow> [])
      in case roleMatch a of
           Some (r, cleanAlt) \<Rightarrow>
             ImageE r (url (nprops n)) cleanAlt (orNull (ntitle (nprops n))) pos
         | None \<Rightarrow>
             ImageE (if pos = 0 then Background else Content)
               (url (nprops n)) a (orNull (ntitle (nprops n))) pos)"

text \<open>
  \<^verbatim>\<open>processNode\<close> returns an element, or \<^verbatim>\<open>null\<close> for a node kind it has no case
  for. A list node without a \<^verbatim>\<open>children\<close> array makes \<^verbatim>\<open>node.children.map\<close> throw.
\<close>

definition processNode_v2 :: "node \<Rightarrow> nat \<Rightarrow> error + element option" where
  "processNode_v2 n pos =
     (if ntype n = ''heading'' then
        Inr (Some (Heading (depth (nprops n))
               (case children n of
                  Some cs \<Rightarrow> stripLabelMarker (getTextContent n)
                | None \<Rightarrow> [])
               pos (extractLabels_v2 n)))
      else if ntype n = ''paragraph'' then
        (case children n of
           Some [c] \<Rightarrow>
             if ntype c = ''image'' then Inr (Some (processImageNode_v2 c pos))
             else Inr (Some (Paragraph (getTextContent n) pos))
         | _ \<Rightarrow> Inr (Some (Paragraph (getTextContent n) pos)))
      else if ntype n = ''image'' then Inr (Some (processImageNode_v2 n pos))
      else if ntype n = ''thematicBreak'' then Inr (Some (Divider pos))
      else if ntype n = ''list'' then
        (case children n of
           None \<Rightarrow> Inl TypeError
         | Some cs \<Rightarrow> Inr (Some (ListE (nordered (nprops n)) (map getTextContent cs) pos)))
      else if ntype n = ''code'' then
        Inr (Some (Code (orNull (lang (nprops n))) (nvalue (nprops n)) pos))
      else Inr None)"

text \<open>
  \<^verbatim>\<open>visit\<close> calls the callback on the node and then visits the children in order.
  The callback works on a state and may throw; an error ends the traversal.
\<close>

fun visit :: "(node \<Rightarrow> 's \<Rightarrow> error + 's) \<Rightarrow> node \<Rightarrow> 's \<Rightarrow> error + 's"
  and visitEach :: "(node \<Rightarrow> 's \<Rightarrow> error + 's) \<Rightarrow> node list \<Rightarrow> 's \<Rightarrow> error + 's" where
  "visit callback (Node t p cs) s =
     (case callback (Node t p cs) s of
        Inl e \<Rightarrow> Inl e
      | Inr s' \<Rightarrow>
          (case cs of
             None \<Rightarrow> Inr s'
           | Some ns \<Rightarrow> visitEach callback ns s'))"
| "visitEach callback [] s = Inr s"
| "visitEach callback (n # ns) s =
     (case visit callback n s of
        Inl e \<Rightarrow> Inl e
      | Inr s' \<Rightarrow> visitEach callback ns s')"

text \<open>
  The callback of \<^verbatim>\<open>processSequence\<close> on the pair of its variables \<^verbatim>\<open>position\<close> and
  \<^verbatim>\<open>sequence\<close>: \<^verbatim>\<open>processNode(node, position++)\<close> counts every node it is called on.
\<close>

definition emit ::
  "(node \<Rightarrow> nat \<Rightarrow> error + element option) \<Rightarrow> node \<Rightarrow> nat \<times> element list
     \<Rightarrow> error + (nat \<times> element list)" where
  "emit processNode n s =
     (case s of (pos, sequence) \<Rightarrow>
        (case processNode n pos of
           Inl e \<Rightarrow> Inl e
         | Inr None \<Rightarrow> Inr (pos + 1, sequence)
         | Inr (Some element) \<Rightarrow> Inr (pos + 1, sequence @ [element])))"

definition processSequence_v2 :: "node \<Rightarrow> error + element list" where
  "processSequence_v2 ast =
     (case visit (emit processNode_v2) ast (0, []) of
        Inl e \<Rightarrow> Inl e
      | Inr (pos, sequence) \<Rightarrow> Inr sequence)"

section \<open>Sequencer, first version (\<^verbatim>\<open>part_004\<close>, lines 1 to 149)\<close>

definition extractLabels_v1 :: "node \<Rightarrow> string list" where
  "extractLabels_v1 n = []"

definition processImageNode_v1 :: "node \<Rightarrow> nat \<Rightarrow> element" where
  "processImageNode_v1 n pos =
     (let a = (case orNull (nalt (nprops n)) of Some s \<Rightarrow> s | None \<Rightarrow> [])
      in case roleMatch a of
           Some (r, cleanAlt) \<Rightarrow>
             ImageE r (url (nprops n)) cleanAlt (orNull (ntitle (nprops n))) pos
         | None \<Rightarrow>
             ImageE Content (url (nprops n)) a (orNull (ntitle (nprops n))) pos)"

text \<open>
  \<^verbatim>\<open>isImageParagraph\<close> reads \<^verbatim>\<open>node.children.length\<close>, which throws on a paragraph
  without a \<^verbatim>\<open>children\<close> array.
\<close>

definition isImageParagraph :: "node \<Rightarrow> error + bool" where
  "isImageParagraph n =
     (case children n of
        None \<Rightarrow> Inl TypeError
      | Some [c] \<Rightarrow> Inr (ntype c = ''image'')
      | Some cs \<Rightarrow> Inr False)"

definition processNode_v1 :: "node \<Rightarrow> nat \<Rightarrow> error + element option" where
  "processNode_v1 n pos =
     (if ntype n = ''heading'' then
        Inr (Some (Heading (depth (nprops n)) (getTextContent n) pos (extractLabels_v1 n)))
      else if ntype n = ''paragraph'' then
        (case isImageParagraph n of
           Inl e \<Rightarrow> Inl e
         | Inr b \<Rightarrow>
             if b then
               (case children n of
                  Some (c # cs) \<Rightarrow> Inr (Some (processImageNode_v1 c pos))
                | _ \<Rightarrow> Inl TypeError)
             else Inr (Some (Paragraph (getTextContent n) pos)))
      else if ntype n = ''image'' then Inr (Some (processImageNode_v1 n pos))
      else if ntype n = ''thematicBreak'' then Inr (Some (Divider pos))
      else if ntype n = ''list'' then
        (case children n of
           None \<Rightarrow> Inl TypeError
         | Some cs \<Rightarrow> Inr (Some (ListE (nordered (nprops n)) (map getTextContent cs) pos)))
      else if ntype n = ''code'' then
        Inr (Some (Code (orNull (lang (nprops n))) (nvalue (nprops n)) pos))
      else Inr None)"

definition processSequence_v1 :: "node \<Rightarrow> error + element list" where
  "processSequence_v1 ast =
     (case visit (emit processNode_v1) ast (0, []) of
        Inl e \<Rightarrow> Inl e
      | Inr (pos, sequence) \<Rightarrow> Inr sequence)"

section \<open>Parse trees of the examples\<close>

definition textNode :: "string \<Rightarrow> node" where
  "textNode s = Node ''text'' (noProps\<lparr> nvalue := Some s \<rparr>) None"

definition headingNode :: "nat \<Rightarrow> node list \<Rightarrow> node" where
  "headingNode d cs = Node ''heading'' (noProps\<lparr> depth := d \<rparr>) (Some cs)"

definition paragraphNode :: "node list \<Rightarrow> node" where
  "paragraphNode cs = Node ''paragraph'' noProps (Some cs)"

definition imageNode :: "string \<Rightarrow> string \<Rightarrow> node" where
  "imageNode u a = Node ''image'' (noProps\<lparr> url := Some u, nalt := Some a \<rparr>) None"

definition rootNode :: "node list \<Rightarrow> node" where
  "rootNode cs = Node ''root'' noProps (Some cs)"

section \<open>Invariants of the traversal\<close>

text \<open>
  The state of the traversal is in order when the positions emitted so far are
  strictly increasing and all below the counter.
\<close>

definition positionsBelow :: "nat \<times> element list \<Rightarrow> bool" where
  "positionsBelow s =
     (sorted_wrt (<) (map position (snd s)) \<and> list_all (\<lambda>el. position el < fst s) (snd s))"

text \<open>The counter and the positions emitted so far are at least \<open>lo\<close>.\<close>

definition positionsFrom :: "nat \<Rightarrow> nat \<times> element list \<Rightarrow> bool" where
  "positionsFrom lo s = (lo \<le> fst s \<and> list_all (\<lambda>el. lo \<le> position el) (snd s))"

section \<open>Type indexer\<close>

text \<open>
  \<^verbatim>\<open>getElementContext(sequence, position)\<close>: the index, the neighbours in the flat
  sequence, and the nearest heading at a lower index, found by scanning backward.
\<close>

record elementContext =
  cposition :: nat
  previousElement :: "element option"
  nextElement :: "element option"
  nearestHeading :: "element option"

definition getElementContext :: "element list \<Rightarrow> nat \<Rightarrow> elementContext" where
  "getElementContext sequence pos =
     \<lparr> cposition = pos,
       previousElement = (if pos > 0 then Some (sequence ! (pos - 1)) else None),
       nextElement = (if pos + 1 < length sequence then Some (sequence ! (pos + 1)) else None),
       nearestHeading = find isHeading (rev (take pos sequence)) \<rparr>"

text \<open>A bucket entry \<^verbatim>\<open>{...element, context: getElementContext(sequence, index)}\<close>.\<close>

record entry =
  elem :: element
  contextOf :: elementContext

definition mkEntry :: "element list \<Rightarrow> nat \<Rightarrow> element \<Rightarrow> entry" where
  "mkEntry sequence index element =
     \<lparr> elem = element, contextOf = getElementContext sequence index \<rparr>"

text \<open>
  The object returned by \<^verbatim>\<open>processByType\<close>. Its \<^verbatim>\<open>images\<close> property is an object
  keyed by role name, and \<^verbatim>\<open>typeFrequency\<close> is a \<^verbatim>\<open>Map\<close>; both keep their keys in
  insertion order and are association lists here. Field names carry \<open>by\<close> in front
  (\<^verbatim>\<open>byType.headings\<close> is \<open>byHeadings\<close>).
\<close>

record typeMetadata =
  totalElements :: nat
  dominantType :: "elemType option"
  byHasMedia :: bool

record collections =
  byHeadings :: "entry list"
  byParagraphs :: "entry list"
  byImages :: "(string \<times> entry list) list"
  byLists :: "entry list"
  byCode :: "entry list"
  byDividers :: "entry list"
  byMetadata :: typeMetadata

text \<open>Assigning a property or a map key: an existing key keeps its place, a new key goes last.\<close>

fun setKey :: "'k \<Rightarrow> 'v \<Rightarrow> ('k \<times> 'v) list \<Rightarrow> ('k \<times> 'v) list" where
  "setKey k v [] = [(k, v)]"
| "setKey k v ((k', v') # kvs) =
     (if k = k' then (k, v) # kvs else (k', v') # setKey k v kvs)"

definition initialCollections :: "element list \<Rightarrow> collections" where
  "initialCollections sequence =
     \<lparr> byHeadings = [], byParagraphs = [],
       byImages = [(''background'', []), (''content'', []), (''gallery'', []), (''icons'', [])],
       byLists = [], byCode = [], byDividers = [],
       byMetadata = \<lparr> totalElements = length sequence, dominantType = None,
                      byHasMedia = False \<rparr> \<rparr>"

text \<open>
  The \<^verbatim>\<open>image\<close> case of the file \<^verbatim>\<open>src/parser/types.js\<close>:
  \<^verbatim>\<open>collections.images[role].push(...)\<close> with no test. For a role that is not a key
  of \<^verbatim>\<open>images\<close> the property is \<^verbatim>\<open>undefined\<close> and the call throws.
\<close>

definition pushImage_v1 ::
  "entry \<Rightarrow> collections \<Rightarrow> error + collections" where
  "pushImage_v1 e c =
     (let r = roleName (role (elem e))
      in case map_of (byImages c) r of
           None \<Rightarrow> Inl TypeError
         | Some bucket \<Rightarrow>
             Inr (c\<lparr> byImages := setKey r (bucket @ [e]) (byImages c),
                     byMetadata := (byMetadata c)\<lparr> byHasMedia := True \<rparr> \<rparr>))"

text \<open>
  The \<^verbatim>\<open>image\<close> case of the other copy of the file (\<^verbatim>\<open>part_005\<close>), which first creates
  the array when the role is no key of \<^verbatim>\<open>images\<close>.
\<close>

definition pushImage_v2 ::
  "entry \<Rightarrow> collections \<Rightarrow> error + collections" where
  "pushImage_v2 e c =
     (let r = roleName (role (elem e));
          imgs = (case map_of (byImages c) r of
                    None \<Rightarrow> setKey r [] (byImages c)
                  | Some bucket \<Rightarrow> byImages c)
      in case map_of imgs r of
           None \<Rightarrow> Inl TypeError
         | Some bucket \<Rightarrow>
             Inr (c\<lparr> byImages := setKey r (bucket @ [e]) imgs,
                     byMetadata := (byMetadata c)\<lparr> byHasMedia := True \<rparr> \<rparr>))"

definition bumpFrequency :: "elemType \<Rightarrow> (elemType \<times> nat) list \<Rightarrow> (elemType \<times> nat) list" where
  "bumpFrequency t freq =
     setKey t ((case map_of freq t of None \<Rightarrow> 0 | Some n \<Rightarrow> n) + 1) freq"

text \<open>One call of the \<^verbatim>\<open>forEach\<close> callback, on the collections and the frequency map.\<close>

definition indexStep ::
  "(entry \<Rightarrow> collections \<Rightarrow> error + collections) \<Rightarrow> element list \<Rightarrow> nat \<Rightarrow> element
     \<Rightarrow> collections \<times> (elemType \<times> nat) list
     \<Rightarrow> error + (collections \<times> (elemType \<times> nat) list)" where
  "indexStep pushImage sequence index element s =
     (case s of (c, freq) \<Rightarrow>
        (let freq' = bumpFrequency (etype element) freq;
             e = mkEntry sequence index element
         in case etype element of
              THeading \<Rightarrow> Inr (c\<lparr> byHeadings := byHeadings c @ [e] \<rparr>, freq')
            | TParagraph \<Rightarrow> Inr (c\<lparr> byParagraphs := byParagraphs c @ [e] \<rparr>, freq')
            | TImage \<Rightarrow>
                (case pushImage e c of
                   Inl err \<Rightarrow> Inl err
                 | Inr c' \<Rightarrow> Inr (c', freq'))
            | TList \<Rightarrow> Inr (c\<lparr> byLists := byLists c @ [e] \<rparr>, freq')
            | TCode \<Rightarrow> Inr (c\<lparr> byCode := byCode c @ [e] \<rparr>, freq')
            | TDivider \<Rightarrow> Inr (c\<lparr> byDividers := byDividers c @ [e] \<rparr>, freq')))"

fun indexLoop ::
  "(entry \<Rightarrow> collections \<Rightarrow> error + collections) \<Rightarrow> element list \<Rightarrow> nat \<Rightarrow> element list
     \<Rightarrow> collections \<times> (elemType \<times> nat) list
     \<Rightarrow> error + (collections \<times> (elemType \<times> nat) list)" where
  "indexLoop pushImage sequence index [] s = Inr s"
| "indexLoop pushImage sequence index (element # rest) s =
     (case indexStep pushImage sequence index element s of
        Inl err \<Rightarrow> Inl err
      | Inr s' \<Rightarrow> indexLoop pushImage sequence (Suc index) rest s')"

text \<open>
  The dominant type: the first type, in the order of the map, whose frequency is
  above every frequency before it.
\<close>

fun dominant :: "(elemType \<times> nat) list \<Rightarrow> nat \<Rightarrow> elemType option \<Rightarrow> elemType option" where
  "dominant [] maxFrequency d = d"
| "dominant ((t, frequency) # rest) maxFrequency d =
     (if frequency > maxFrequency then dominant rest frequency (Some t)
      else dominant rest maxFrequency d)"

definition processByTypeWith ::
  "(entry \<Rightarrow> collections \<Rightarrow> error + collections) \<Rightarrow> element list \<Rightarrow> error + collections" where
  "processByTypeWith pushImage sequence =
     (case indexLoop pushImage sequence 0 sequence (initialCollections sequence, []) of
        Inl err \<Rightarrow> Inl err
      | Inr (c, freq) \<Rightarrow>
          Inr (c\<lparr> byMetadata := (byMetadata c)\<lparr> dominantType := dominant freq 0 None \<rparr> \<rparr>))"

definition processByType_v1 :: "element list \<Rightarrow> error + collections" where
  \<comment> \<open>\<^verbatim>\<open>src/src/parser/types.js\<close>\<close>
  "processByType_v1 = processByTypeWith pushImage_v1"

definition processByType_v2 :: "element list \<Rightarrow> error + collections" where
  \<comment> \<open>\<^verbatim>\<open>src/unnamed/part_005\<close>\<close>
  "processByType_v2 = processByTypeWith pushImage_v2"

text \<open>The helper \<^verbatim>\<open>getHeadingsByLevel\<close> that both copies attach to the collections.\<close>

definition getHeadingsByLevel :: "collections \<Rightarrow> nat \<Rightarrow> entry list" where
  "getHeadingsByLevel c l = filter (\<lambda>h. level (elem h) = l) (byHeadings c)"

text \<open>
  All bucket entries of a type index, the role buckets of the images included; the
  elements they were made from; and the round trip, those elements sorted by position.
\<close>

definition allBuckets :: "collections \<Rightarrow> entry list" where
  "allBuckets c =
     byHeadings c @ byParagraphs c @ concat (map snd (byImages c)) @ byLists c @ byCode c
     @ byDividers c"

definition bucketElements :: "collections \<Rightarrow> element list" where
  "bucketElements c = map elem (allBuckets c)"

definition roundTrip :: "collections \<Rightarrow> element list" where
  "roundTrip c = sort_key position (bucketElements c)"

text \<open>The role buckets that \<^verbatim>\<open>processByType\<close> declares.\<close>

definition declaredRoles :: "string list" where
  "declaredRoles = [''background'', ''content'', ''gallery'', ''icons'']"

text \<open>An image whose role is \<^verbatim>\<open>icon\<close>.\<close>

fun iconImage :: "element \<Rightarrow> bool" where
  "iconImage (ImageE r s a t p) = (r = Icon)"
| "iconImage el = False"

text \<open>The features section of the parser test, up to its first feature.\<close>

definition featureSequence :: "element list" where
  "featureSequence =
     [Heading 1 ''Why Choose Rosetta'' 0 [],
      Paragraph ''Transform how you build websites.'' 1,
      Heading 2 ''Natural Writing'' 2 [''highlight''],
      ImageE Icon (Some ''./icons/write.svg'') ''pen-tool'' None 3,
      Paragraph ''Write content using familiar markdown conventions.'' 4]"

section \<open>Validator (\<^verbatim>\<open>src/validation/index.js\<close>)\<close>

text \<open>
  A diagnostic is an object with a \<^verbatim>\<open>type\<close> tag, a message and, for some kinds, a
  \<^verbatim>\<open>location\<close>: a sequence element, a bucket entry of the type index or a group.
\<close>

datatype location = AtElement element | AtEntry entry | AtGroup group

record diagnostic =
  dtype :: string
  message :: string
  location :: "location option"

record results =
  errors :: "diagnostic list"
  warnings :: "diagnostic list"
  suggestions :: "diagnostic list"

text \<open>
  The input of \<^verbatim>\<open>validateContent\<close>. A sequence that is missing or is no array is
  \<open>None\<close>. Of \<^verbatim>\<open>props\<close> the validator only asks whether it is truthy and whether
  \<^verbatim>\<open>typeof\<close> says \<^verbatim>\<open>"object"\<close>.
\<close>

datatype propsValue = PropsFalsy | PropsObject | PropsOther

record structured =
  cSequence :: "element list option"
  cGroups :: "structure"
  cByType :: collections

record section_content =
  component :: "string option"
  sprops :: propsValue
  scontent :: structured

text \<open>A number inside a template literal.\<close>

definition digit :: "nat \<Rightarrow> char" where
  "digit d = char_of (48 + d)"

function showNat :: "nat \<Rightarrow> string" where
  "showNat n = (if n < 10 then [digit n] else showNat (n div 10) @ [digit (n mod 10)])"
  by pat_completeness auto
termination
  by (relation "measure id") auto

declare showNat.simps [simp del]

definition pushError :: "diagnostic \<Rightarrow> results \<Rightarrow> results" where
  "pushError d r = r\<lparr> errors := errors r @ [d] \<rparr>"

definition pushWarning :: "diagnostic \<Rightarrow> results \<Rightarrow> results" where
  "pushWarning d r = r\<lparr> warnings := warnings r @ [d] \<rparr>"

definition pushSuggestion :: "diagnostic \<Rightarrow> results \<Rightarrow> results" where
  "pushSuggestion d r = r\<lparr> suggestions := suggestions r @ [d] \<rparr>"

definition validateFrontmatter :: "section_content \<Rightarrow> results \<Rightarrow> results" where
  "validateFrontmatter c r =
     (let r1 = (if orNull (component c) = None
                then pushError \<lparr> dtype = ''missing_component'',
                        message = ''Component name is required in frontmatter'',
                        location = None \<rparr> r
                else r)
      in if sprops c = PropsOther
         then pushError \<lparr> dtype = ''invalid_props'', message = ''Props must be an object'',
                 location = None \<rparr> r1
         else r1)"

fun hierarchyLoop :: "entry list \<Rightarrow> nat \<Rightarrow> results \<Rightarrow> results" where
  "hierarchyLoop [] previousLevel r = r"
| "hierarchyLoop (heading # rest) previousLevel r =
     hierarchyLoop rest (level (elem heading))
       (if level (elem heading) > previousLevel + 1
        then pushWarning \<lparr> dtype = ''skipped_heading_level'',
                message = ''Heading level skipped from h'' @ showNat previousLevel @ '' to h''
                          @ showNat (level (elem heading)),
                location = Some (AtEntry heading) \<rparr> r
        else r)"

definition validateHeadingHierarchy :: "entry list \<Rightarrow> results \<Rightarrow> results" where
  "validateHeadingHierarchy hs r =
     (if hs = []
      then pushWarning \<lparr> dtype = ''no_headings'', message = ''Content has no headings'',
              location = None \<rparr> r
      else hierarchyLoop hs 0 r)"

fun emptyGroupsLoop :: "group list \<Rightarrow> nat \<Rightarrow> results \<Rightarrow> results" where
  "emptyGroupsLoop [] index r = r"
| "emptyGroupsLoop (g # rest) index r =
     emptyGroupsLoop rest (Suc index)
       (if content g = [] \<and> slotElements (headings g) = []
        then pushWarning \<lparr> dtype = ''empty_group'',
                message = ''Group '' @ showNat (index + 1) @ '' is empty'',
                location = Some (AtGroup g) \<rparr> r
        else r)"

text \<open>
  \<^verbatim>\<open>groupedPositions\<close>: the \<^verbatim>\<open>position\<close> fields of the elements in the content
  of the main group and of the items. The headings in the slots of a group are not
  added.
\<close>

definition groupedPositions :: "structure \<Rightarrow> nat list" where
  "groupedPositions g =
     (case main g of None \<Rightarrow> [] | Some m \<Rightarrow> map position (content m))
     @ concat (map (\<lambda>grp. map position (content grp)) (items g))"

definition orphanedContent :: "element \<Rightarrow> diagnostic" where
  "orphanedContent element =
     \<lparr> dtype = ''orphaned_content'',
       message = typeName (etype element) @ '' element not part of any group'',
       location = Some (AtElement element) \<rparr>"

fun orphanLoop :: "nat list \<Rightarrow> element list \<Rightarrow> nat \<Rightarrow> results \<Rightarrow> results" where
  "orphanLoop grouped [] index r = r"
| "orphanLoop grouped (element # rest) index r =
     orphanLoop grouped rest (Suc index)
       (if index \<notin> set grouped \<and> etype element \<noteq> TDivider
        then pushWarning (orphanedContent element) r
        else r)"

definition validateOrphanedContent :: "structured \<Rightarrow> results \<Rightarrow> error + results" where
  "validateOrphanedContent c r =
     (case cSequence c of
        None \<Rightarrow> Inl TypeError
      | Some sq \<Rightarrow> Inr (orphanLoop (groupedPositions (cGroups c)) sq 0 r))"

definition validateStructure :: "structured \<Rightarrow> results \<Rightarrow> error + results" where
  "validateStructure c r =
     (case cSequence c of
        None \<Rightarrow>
          Inr (pushError \<lparr> dtype = ''invalid_sequence'',
                 message = ''Content sequence is invalid or missing'', location = None \<rparr> r)
      | Some sq \<Rightarrow>
          validateOrphanedContent c
            (emptyGroupsLoop (items (cGroups c)) 0
               (validateHeadingHierarchy (byHeadings (cByType c)) r)))"

text \<open>
  \<^verbatim>\<open>findNearbyHeading\<close>: the loop runs \<^verbatim>\<open>i\<close> from \<^verbatim>\<open>Math.max(0, pos - 2)\<close> while
  \<^verbatim>\<open>i < Math.min(sequence.length, pos + 2)\<close> and returns the first heading it meets.
\<close>

definition findNearbyHeading :: "element \<Rightarrow> element list \<Rightarrow> element option" where
  "findNearbyHeading element sq =
     (let pos = position element
      in find isHeading (map (\<lambda>i. sq ! i) [pos - 2 ..< min (length sq) (pos + 2)]))"

definition orphanedBackground :: "entry \<Rightarrow> diagnostic" where
  "orphanedBackground img =
     \<lparr> dtype = ''orphaned_background'',
       message = ''Background image has no associated heading'',
       location = Some (AtEntry img) \<rparr>"

fun backgroundLoop :: "entry list \<Rightarrow> element list option \<Rightarrow> results \<Rightarrow> error + results" where
  "backgroundLoop [] sq r = Inr r"
| "backgroundLoop (img # rest) sq r =
     (case sq of
        None \<Rightarrow> Inl TypeError
      | Some s \<Rightarrow>
          backgroundLoop rest sq
            (if findNearbyHeading (elem img) s = None
             then pushSuggestion (orphanedBackground img) r
             else r))"

definition validateContentGroups :: "structured \<Rightarrow> results \<Rightarrow> error + results" where
  "validateContentGroups c r =
     validateOrphanedContent c
       (case main (cGroups c) of
          Some m \<Rightarrow>
            if title (headings m) = None
            then pushWarning \<lparr> dtype = ''no_main_title'',
                    message = ''Main content group has no title'', location = None \<rparr> r
            else r
        | None \<Rightarrow>
            pushSuggestion \<lparr> dtype = ''no_main_group'',
              message = ''Content has no clear main group'', location = None \<rparr> r)"

definition validateRelationships :: "structured \<Rightarrow> results \<Rightarrow> error + results" where
  "validateRelationships c r =
     (case map_of (byImages (cByType c)) ''background'' of
        None \<Rightarrow> Inl TypeError
      | Some bucket \<Rightarrow>
          (case backgroundLoop bucket (cSequence c) r of
             Inl e \<Rightarrow> Inl e
           | Inr r' \<Rightarrow> validateContentGroups c r'))"

definition validateContent :: "section_content \<Rightarrow> error + results" where
  "validateContent c =
     (case validateStructure (scontent c)
             (validateFrontmatter c \<lparr> errors = [], warnings = [], suggestions = [] \<rparr>) of
        Inl e \<Rightarrow> Inl e
      | Inr r \<Rightarrow> validateRelationships (scontent c) r)"

text \<open>The diagnostics of one kind in a list.\<close>

definition ofKind :: "string \<Rightarrow> diagnostic list \<Rightarrow> diagnostic list" where
  "ofKind k ds = filter (\<lambda>d. dtype d = k) ds"

text \<open>
  What one run of \<^verbatim>\<open>validateOrphanedContent\<close> reports: the elements, dividers
  apart, whose index in the sequence is not the \<^verbatim>\<open>position\<close> of an element in the
  content of a group.
\<close>

definition uncovered :: "structure \<Rightarrow> nat \<Rightarrow> element list \<Rightarrow> element list" where
  "uncovered g i sq =
     map snd (filter (\<lambda>p. fst p \<notin> set (groupedPositions g) \<and> etype (snd p) \<noteq> TDivider)
                (enumerate i sq))"

text \<open>The background images for which \<^verbatim>\<open>findNearbyHeading\<close> returns \<^verbatim>\<open>null\<close>.\<close>

definition farFromHeading :: "element list \<Rightarrow> entry list \<Rightarrow> entry list" where
  "farFromHeading sq bucket = filter (\<lambda>img. findNearbyHeading (elem img) sq = None) bucket"

text \<open>
  A page whose sequence is a level-1 heading and a paragraph, with the structure and
  the type index that belong to it: the heading is the title of the main group, the
  paragraph its content.
\<close>

definition titledPage :: section_content where
  "titledPage =
     \<lparr> component = Some ''Hero'', sprops = PropsObject,
       scontent =
         \<lparr> cSequence = Some [Heading 1 ''Title'' 0 [], Paragraph ''Body'' 1],
           cGroups =
             \<lparr> main = Some \<lparr> headings = \<lparr> eyebrow = None,
                                           title = Some (Heading 1 ''Title'' 0 []),
                                           subtitle = None \<rparr>,
                              content = [Paragraph ''Body'' 1],
                              metadata = \<lparr> mlevel = Some 1, hasMedia = None,
                                           contentTypes = [] \<rparr> \<rparr>,
               items = [] \<rparr>,
           cByType =
             (initialCollections [Heading 1 ''Title'' 0 [], Paragraph ''Body'' 1])
               \<lparr> byHeadings := [mkEntry [Heading 1 ''Title'' 0 [], Paragraph ''Body'' 1] 0
                                   (Heading 1 ''Title'' 0 [])],
                 byParagraphs := [mkEntry [Heading 1 ''Title'' 0 [], Paragraph ''Body'' 1] 1
                                   (Paragraph ''Body'' 1)],
                 byMetadata := \<lparr> totalElements = 2, dominantType = Some THeading,
                                  byHasMedia = False \<rparr> \<rparr> \<rparr> \<rparr>"

text \<open>
  A page that opens with a background image, followed by a paragraph and a level-1
  heading: the heading is two positions after the image.
\<close>

definition backgroundSequence :: "element list" where
  "backgroundSequence =
     [ImageE Background (Some ''./hero-bg.jpg'') ''Hero'' None 0,
      Paragraph ''Intro'' 1,
      Heading 1 ''Title'' 2 []]"

definition backgroundPage :: "structure \<Rightarrow> collections \<Rightarrow> section_content" where
  "backgroundPage g c =
     \<lparr> component = Some ''Hero'', sprops = PropsObject,
       scontent = \<lparr> cSequence = Some backgroundSequence, cGroups = g, cByType = c \<rparr> \<rparr>"

section \<open>Properties of the grouping engine\<close>

subsection \<open>What a structure holds\<close>

lemma accountedFor_structureElements:
  "accountedFor sequence st = length (structureElements st) + length (filter isDivider sequence)"
proof -
  have "length (concat (map groupElements gs)) =
        sum_list (map (\<lambda>g. length (content g)) gs)
        + sum_list (map (\<lambda>g. length (slotElements (headings g))) gs)" for gs
    by (induction gs) (simp_all add: groupElements_def)
  then show ?thesis
    by (simp add: accountedFor_def structureElements_def)
qed

subsection \<open>The first version keeps every element\<close>

text \<open>
  In the first version every heading goes through \<^verbatim>\<open>addHeadingToGroup\<close>, which fills
  an empty slot or appends to the content, so a finished structure holds each element
  of the input other than the dividers exactly once.
\<close>

lemma addGroupToStructure_v1_elements:
  "mset (structureElements (addGroupToStructure_v1 g st)) =
     mset (structureElements st) + mset (groupElements g)"
  by (auto simp: addGroupToStructure_v1_def structureElements_def groupsOf_def
      groupElements_def Let_def split: option.splits)

lemma closeGroup_v1_elements:
  "mset (structureElements (closeGroup_v1 cg st)) =
     mset (structureElements st) + (case cg of None \<Rightarrow> {#} | Some g \<Rightarrow> mset (groupElements g))"
  by (cases cg) (simp_all add: closeGroup_v1_def addGroupToStructure_v1_elements)

lemma addHeadingToGroup_v1_elements:
  "mset (groupElements (addHeadingToGroup_v1 g h)) = mset (groupElements g) + {#h#}"
  by (auto simp: addHeadingToGroup_v1_def groupElements_def slotElements_def
      split: option.splits)

lemma createNewGroup_v1_elements: "groupElements createNewGroup_v1 = []"
  by (simp add: createNewGroup_v1_def groupElements_def slotElements_def)

lemma push_content_elements:
  "mset (groupElements (g\<lparr> content := content g @ [el] \<rparr>)) = mset (groupElements g) + {#el#}"
  by (simp add: groupElements_def)

lemma groupStep_v1_elements:
  "stateElements_v1 (groupStep_v1 sequence i el s) =
     stateElements_v1 s + (if isDivider el then {#} else {#el#})"
proof (cases s)
  case (Pair cg st)
  show ?thesis
  proof (cases "etype el = TDivider")
    case True
    then show ?thesis
      by (simp add: Pair groupStep_v1_def stateElements_v1_def closeGroup_v1_elements
          createNewGroup_v1_elements isDivider_def)
  next
    case nd: False
    show ?thesis
    proof (cases "etype el = THeading \<and> shouldStartNewGroup_v1 el cg sequence i")
      case True
      then show ?thesis using nd
        by (simp add: Pair groupStep_v1_def stateElements_v1_def closeGroup_v1_elements
            createNewGroup_v1_elements isDivider_def addHeadingToGroup_v1_elements)
    next
      case False
      have g0: "(case cg of None \<Rightarrow> {#} | Some g \<Rightarrow> mset (groupElements g)) =
                mset (groupElements (case cg of None \<Rightarrow> createNewGroup_v1 | Some g \<Rightarrow> g))"
        by (cases cg) (simp_all add: createNewGroup_v1_elements)
      from False nd show ?thesis
        by (simp add: Pair groupStep_v1_def stateElements_v1_def g0 isDivider_def
            addHeadingToGroup_v1_elements push_content_elements Let_def)
    qed
  qed
qed

lemma groupLoop_v1_elements:
  "stateElements_v1 (groupLoop_v1 sequence i es s) =
     stateElements_v1 s + mset (filter (\<lambda>el. \<not> isDivider el) es)"
  by (induction es arbitrary: i s) (simp_all add: groupStep_v1_elements)

lemma secondPass_v1_elements:
  "mset (structureElements (secondPass_v1 st)) = mset (structureElements st)"
  by (cases "items st")
     (auto simp: secondPass_v1_def structureElements_def groupsOf_def split: option.splits)

lemma processGroups_v1_conserves:
  "mset (structureElements (processGroups_v1 sequence)) =
     mset (filter (\<lambda>el. \<not> isDivider el) sequence)"
proof -
  obtain cg st where loop:
    "groupLoop_v1 sequence 0 sequence (None, \<lparr> main = None, items = [] \<rparr>) = (cg, st)"
    by (cases "groupLoop_v1 sequence 0 sequence (None, \<lparr> main = None, items = [] \<rparr>)")
  have "stateElements_v1 (cg, st) = mset (filter (\<lambda>el. \<not> isDivider el) sequence)"
    using groupLoop_v1_elements[of sequence 0 sequence "(None, \<lparr> main = None, items = [] \<rparr>)"]
    by (simp add: loop stateElements_v1_def structureElements_def groupsOf_def)
  then show ?thesis
    by (simp add: processGroups_v1_def loop secondPass_v1_elements closeGroup_v1_elements
        stateElements_v1_def)
qed

lemma processGroups_v1_accounts:
  "accountedFor sequence (processGroups_v1 sequence) = length sequence"
proof -
  have "length (structureElements (processGroups_v1 sequence)) =
        length (filter (\<lambda>el. \<not> isDivider el) sequence)"
    using processGroups_v1_conserves[of sequence] by (metis size_mset)
  then show ?thesis
    using sum_length_filter_compl[of isDivider sequence]
    by (simp add: accountedFor_structureElements)
qed

text \<open>On the hero section the first version accounts for all five elements.\<close>

lemma processGroups_v1_accounts_instance:
  "accountedFor heroSequence (processGroups_v1 heroSequence) = 5"
  using processGroups_v1_accounts[of heroSequence] by (simp add: heroSequence_def)

subsection \<open>What the second version keeps\<close>

text \<open>
  The second version always returns a structure. Every element that is neither a
  heading nor a divider is in the content of exactly one group, and the headings in
  the slots are headings of the input, none of them twice. Headings can be missing:
  the heading that opens a group is not stored, and \<^verbatim>\<open>addHeadingToGroup\<close> can
  overwrite a slot or ignore a heading of the title's level.
\<close>

lemma addGroupToStructure_v2_parts:
  "mset (contentElements (addGroupToStructure_v2 g st)) = mset (contentElements st) + mset (content g)"
  "mset (placedHeadings (addGroupToStructure_v2 g st))
     = mset (placedHeadings st) + mset (slotElements (headings g))"
  by (auto simp: addGroupToStructure_v2_def contentElements_def placedHeadings_def groupsOf_def
      Let_def split: option.splits)

lemma closeGroup_v2_parts:
  "mset (contentElements (closeGroup_v2 cg st)) =
     mset (contentElements st) + (case cg of None \<Rightarrow> {#} | Some g \<Rightarrow> mset (content g))"
  "mset (placedHeadings (closeGroup_v2 cg st)) =
     mset (placedHeadings st)
     + (case cg of None \<Rightarrow> {#} | Some g \<Rightarrow> mset (slotElements (headings g)))"
  by (cases cg; simp add: closeGroup_v2_def addGroupToStructure_v2_parts)+

lemma createNewGroup_v2_parts:
  "content (createNewGroup_v2 h) = []" "slotElements (headings (createNewGroup_v2 h)) = []"
  by (simp_all add: createNewGroup_v2_def slotElements_def)

lemma addHeadingToGroup_v2_parts:
  "content (addHeadingToGroup_v2 g h) = content g"
  "mset (slotElements (headings (addHeadingToGroup_v2 g h)))
     \<subseteq># mset (slotElements (headings g)) + {#h#}"
  by (auto simp: addHeadingToGroup_v2_def slotElements_def split: option.splits)

lemma groupStep_v2_parts:
  "\<exists>s'. groupStep_v2 sequence i el s = Inr s'
     \<and> stateContents s' = stateContents s + (if plainElement el then {#el#} else {#})
     \<and> stateHeadings s' \<subseteq># stateHeadings s + (if isHeading el then {#el#} else {#})"
proof (cases s)
  case (Pair cg st)
  show ?thesis
  proof (cases "etype el = TDivider")
    case True
    then show ?thesis
      by (simp add: Pair groupStep_v2_def stateContents_def stateHeadings_def
          closeGroup_v2_parts createNewGroup_v2_parts plainElement_def isHeading_def)
  next
    case nd: False
    show ?thesis
    proof (cases "etype el = THeading")
      case h: True
      show ?thesis
      proof (cases "shouldStartNewGroup_v2 el cg sequence i")
        case True
        then show ?thesis
          using h
          by (simp add: Pair groupStep_v2_def stateContents_def stateHeadings_def
              closeGroup_v2_parts createNewGroup_v2_parts plainElement_def isHeading_def)
      next
        case False
        then obtain g where g: "cg = Some g"
          by (cases cg) (simp_all add: shouldStartNewGroup_v2_def)
        have "mset (placedHeadings st) + mset (slotElements (headings (addHeadingToGroup_v2 g el)))
                \<subseteq># mset (placedHeadings st) + (mset (slotElements (headings g)) + {#el#})"
          using addHeadingToGroup_v2_parts(2)[of g el] by simp
        then show ?thesis
          using h False
          by (simp add: Pair g groupStep_v2_def stateContents_def stateHeadings_def
              addHeadingToGroup_v2_parts(1) plainElement_def isHeading_def add.assoc)
      qed
    next
      case False
      then show ?thesis
        using nd
        by (cases cg)
           (simp_all add: Pair groupStep_v2_def stateContents_def stateHeadings_def
            createNewGroup_v2_parts plainElement_def isHeading_def Let_def)
    qed
  qed
qed

lemma groupLoop_v2_parts:
  "\<exists>s'. groupLoop_v2 sequence i es s = Inr s'
     \<and> stateContents s' = stateContents s + mset (filter plainElement es)
     \<and> stateHeadings s' \<subseteq># stateHeadings s + mset (filter isHeading es)"
proof (induction es arbitrary: i s)
  case Nil
  show ?case by simp
next
  case (Cons el es)
  obtain s1 where s1: "groupStep_v2 sequence i el s = Inr s1"
    and c1: "stateContents s1 = stateContents s + (if plainElement el then {#el#} else {#})"
    and h1: "stateHeadings s1 \<subseteq># stateHeadings s + (if isHeading el then {#el#} else {#})"
    using groupStep_v2_parts by blast
  obtain s2 where s2: "groupLoop_v2 sequence (Suc i) es s1 = Inr s2"
    and c2: "stateContents s2 = stateContents s1 + mset (filter plainElement es)"
    and h2: "stateHeadings s2 \<subseteq># stateHeadings s1 + mset (filter isHeading es)"
    using Cons.IH by blast
  have "stateHeadings s1 + mset (filter isHeading es)
          \<subseteq># stateHeadings s + (if isHeading el then {#el#} else {#}) + mset (filter isHeading es)"
    using h1 by simp
  then have "stateHeadings s2 \<subseteq># stateHeadings s + mset (filter isHeading (el # es))"
    using h2 by (auto intro: subset_mset.order_trans simp: add.assoc)
  then show ?case
    using s1 s2 c1 c2 by simp
qed

lemma processGroups_v2_parts:
  "\<exists>st. processGroups_v2 sequence = Inr st
     \<and> mset (contentElements st) = mset (filter plainElement sequence)
     \<and> mset (placedHeadings st) \<subseteq># mset (filter isHeading sequence)"
proof -
  obtain cg st where loop:
      "groupLoop_v2 sequence 0 sequence (None, \<lparr> main = None, items = [] \<rparr>) = Inr (cg, st)"
    and c: "stateContents (cg, st)
              = stateContents (None, \<lparr> main = None, items = [] \<rparr>)
                + mset (filter plainElement sequence)"
    and h: "stateHeadings (cg, st)
              \<subseteq># stateHeadings (None, \<lparr> main = None, items = [] \<rparr>)
                  + mset (filter isHeading sequence)"
    using groupLoop_v2_parts[of sequence 0 sequence "(None, \<lparr> main = None, items = [] \<rparr>)"]
    by (metis surj_pair)
  have c0: "stateContents (None, \<lparr> main = None, items = [] \<rparr>) = {#}"
    by (simp add: stateContents_def contentElements_def groupsOf_def)
  have h0: "stateHeadings (None, \<lparr> main = None, items = [] \<rparr>) = {#}"
    by (simp add: stateHeadings_def placedHeadings_def groupsOf_def)
  have "processGroups_v2 sequence = Inr (closeGroup_v2 cg st)"
    using loop by (simp add: processGroups_v2_def)
  moreover have "mset (contentElements (closeGroup_v2 cg st)) = mset (filter plainElement sequence)"
    using c unfolding c0 by (simp add: closeGroup_v2_parts stateContents_def)
  moreover have "mset (placedHeadings (closeGroup_v2 cg st)) \<subseteq># mset (filter isHeading sequence)"
    using h unfolding h0 by (simp add: closeGroup_v2_parts stateHeadings_def)
  ultimately show ?thesis by blast
qed

text \<open>
  Claim C1. Element conservation: the content lengths over the main group and the
  items, the headings placed as eyebrow, title or subtitle, and the dividers add up to
  the length of the input. The second version of \<^verbatim>\<open>processGroups\<close> breaks this on
  the sequence of a single level-1 heading: \<^verbatim>\<open>shouldStartNewGroup\<close> answers true,
  \<^verbatim>\<open>createNewGroup(element)\<close> reads the level of the heading and does not store the
  heading, and the structure returned holds one group with empty slots and empty
  content. The count is 0 where the input has length 1.
\<close>

theorem processGroups_v2_drops_heading:
  "processGroups_v2 [Heading 1 ''Title'' 0 []] =
     Inr \<lparr> main = None,
           items = [\<lparr> headings = \<lparr> eyebrow = None, title = None, subtitle = None \<rparr>,
                      content = [],
                      metadata = \<lparr> mlevel = Some 1, hasMedia = Some False,
                                   contentTypes = [] \<rparr> \<rparr>] \<rparr>
   \<and> accountedFor [Heading 1 ''Title'' 0 []]
        \<lparr> main = None,
          items = [\<lparr> headings = \<lparr> eyebrow = None, title = None, subtitle = None \<rparr>,
                     content = [],
                     metadata = \<lparr> mlevel = Some 1, hasMedia = Some False,
                                  contentTypes = [] \<rparr> \<rparr>] \<rparr> = 0
   \<and> length [Heading 1 ''Title'' 0 []] = 1"
  by (simp add: processGroups_v2_def groupStep_v2_def closeGroup_v2_def
      addGroupToStructure_v2_def isMainGroup_v2_def createNewGroup_v2_def
      shouldStartNewGroup_v2_def accountedFor_def groupsOf_def slotElements_def
      isDivider_def)

text \<open>
  Claim C2. The eyebrow pattern: for an image, a level-3 heading, a level-1 heading, a
  level-2 heading and a paragraph, the main group should hold the three headings as
  eyebrow, title and subtitle, and the paragraph as its only content. Neither version
  returns that. In the second version the level-3 heading becomes the title of a
  group that is closed as main with the image as content when the level-1 heading
  arrives; the level-1 and level-2 headings are used for the level of a new group and
  stored nowhere. In the first version the level-3 heading becomes the eyebrow of
  the main group, which is closed at the level-1 heading, and title and subtitle land
  in the first item.
\<close>

theorem eyebrow_pattern_grouping:
  "processGroups_v2 heroSequence =
     Inr \<lparr> main = Some \<lparr> headings = \<lparr> eyebrow = None,
                                       title = Some (Heading 3 ''WELCOME'' 1 []),
                                       subtitle = None \<rparr>,
                          content = [ImageE Content (Some ''./hero-bg.jpg'') ''WELCOME'' None 0],
                          metadata = \<lparr> mlevel = Some 3, hasMedia = Some True,
                                       contentTypes = [TImage] \<rparr> \<rparr>,
           items = [\<lparr> headings = \<lparr> eyebrow = None, title = None, subtitle = None \<rparr>,
                      content = [],
                      metadata = \<lparr> mlevel = Some 1, hasMedia = Some False,
                                   contentTypes = [] \<rparr> \<rparr>,
                    \<lparr> headings = \<lparr> eyebrow = None, title = None, subtitle = None \<rparr>,
                      content = [Paragraph ''Body'' 4],
                      metadata = \<lparr> mlevel = Some 2, hasMedia = Some False,
                                   contentTypes = [TParagraph] \<rparr> \<rparr>] \<rparr>
   \<and> processGroups_v1 heroSequence =
     \<lparr> main = Some \<lparr> headings = \<lparr> eyebrow = Some (Heading 3 ''WELCOME'' 1 []),
                                   title = None, subtitle = None \<rparr>,
                      content = [ImageE Content (Some ''./hero-bg.jpg'') ''WELCOME'' None 0],
                      metadata = \<lparr> mlevel = Some 3, hasMedia = None, contentTypes = [] \<rparr> \<rparr>,
       items = [\<lparr> headings = \<lparr> eyebrow = None,
                                 title = Some (Heading 1 ''Title'' 2 []),
                                 subtitle = Some (Heading 2 ''Subtitle'' 3 []) \<rparr>,
                  content = [Paragraph ''Body'' 4],
                  metadata = \<lparr> mlevel = Some 1, hasMedia = None, contentTypes = [] \<rparr> \<rparr>] \<rparr>"
  by (simp add: heroSequence_def processGroups_v2_def groupStep_v2_def closeGroup_v2_def
      addGroupToStructure_v2_def isMainGroup_v2_def createNewGroup_v2_def
      shouldStartNewGroup_v2_def isEyebrowPattern_def nextHeading_def isHeading_def
      addHeadingToGroup_v2_def
      processGroups_v1_def groupStep_v1_def closeGroup_v1_def addGroupToStructure_v1_def
      isMainGroup_v1_def createNewGroup_v1_def shouldStartNewGroup_v1_def
      addHeadingToGroup_v1_def secondPass_v1_def)

text \<open>
  The look-ahead of both versions takes the next heading wherever it is. The scan of
  \<^verbatim>\<open>isEyebrowHeading\<close>, which gives up at the first element that is neither a
  heading nor an image, is called nowhere: a paragraph between the two headings does
  not stop the look-ahead that is used.
\<close>

lemma lookahead_passes_paragraph:
  "isEyebrowPattern (Heading 3 ''WELCOME'' 0 [])
     [Heading 3 ''WELCOME'' 0 [], Paragraph ''Body'' 1, Heading 1 ''Title'' 2 []] 0
   \<and> \<not> isEyebrowHeading (Heading 3 ''WELCOME'' 0 [])
     [Heading 3 ''WELCOME'' 0 [], Paragraph ''Body'' 1, Heading 1 ''Title'' 2 []] 0"
  by (simp add: isEyebrowPattern_def isEyebrowHeading_def nextHeading_def isHeading_def)

subsection \<open>Sequences without headings\<close>

lemma groupStep_v2_plain:
  "plainElement el \<Longrightarrow>
   groupStep_v2 sequence i el (Some g, st) = Inr (Some (g\<lparr> content := content g @ [el] \<rparr>), st)"
  by (simp add: groupStep_v2_def plainElement_def)

lemma groupLoop_v2_plain:
  "list_all plainElement es \<Longrightarrow>
   groupLoop_v2 sequence i es (Some g, st) = Inr (Some (g\<lparr> content := content g @ es \<rparr>), st)"
proof (induction es arbitrary: i g)
  case Nil
  show ?case by simp
next
  case (Cons el es)
  then show ?case by (simp add: groupStep_v2_plain)
qed

lemma groupStep_v1_plain:
  "plainElement el \<Longrightarrow>
   groupStep_v1 sequence i el (Some g, st) = (Some (g\<lparr> content := content g @ [el] \<rparr>), st)"
  by (simp add: groupStep_v1_def plainElement_def)

lemma groupLoop_v1_plain:
  "list_all plainElement es \<Longrightarrow>
   groupLoop_v1 sequence i es (Some g, st) = (Some (g\<lparr> content := content g @ es \<rparr>), st)"
proof (induction es arbitrary: i g)
  case Nil
  show ?case by simp
next
  case (Cons el es)
  then show ?case by (simp add: groupStep_v1_plain)
qed

text \<open>
  Claim C3, as stated, at the first version: a sequence of one paragraph. Its
  \<^verbatim>\<open>addGroupToStructure\<close> makes the first finished group the main group whether or
  not it has a title (\<^verbatim>\<open>isMainGroup(group) || structure.items.length === 0\<close>), so main
  is not empty and items is.
\<close>

theorem no_headings_v1_promotes_first_group:
  "processGroups_v1 [Paragraph ''Body'' 0] =
     \<lparr> main = Some \<lparr> headings = \<lparr> eyebrow = None, title = None, subtitle = None \<rparr>,
                      content = [Paragraph ''Body'' 0],
                      metadata = \<lparr> mlevel = None, hasMedia = None, contentTypes = [] \<rparr> \<rparr>,
       items = [] \<rparr>"
  by (simp add: processGroups_v1_def groupStep_v1_def closeGroup_v1_def
      addGroupToStructure_v1_def isMainGroup_v1_def createNewGroup_v1_def secondPass_v1_def)

text \<open>
  Claim C3, amended. For a non-empty sequence with no heading and no divider both
  versions build exactly one group, with the three heading slots empty and the whole
  sequence, in order, as content. The second version, whose \<^verbatim>\<open>addGroupToStructure\<close>
  asks \<^verbatim>\<open>isMainGroup\<close> only, returns it as the single entry of items and leaves main
  empty. The first version returns it as main and leaves items empty.
\<close>

theorem no_headings_single_group:
  assumes "sequence \<noteq> []" and "list_all plainElement sequence"
  shows "processGroups_v2 sequence =
           Inr \<lparr> main = None,
                 items = [\<lparr> headings = emptyHeadings, content = sequence,
                            metadata = \<lparr> mlevel = None,
                              hasMedia = Some (list_ex (\<lambda>el. etype el = TImage) sequence),
                              contentTypes = insertionOrder [] (map etype sequence) \<rparr> \<rparr>] \<rparr>
         \<and> processGroups_v1 sequence =
           \<lparr> main = Some \<lparr> headings = emptyHeadings, content = sequence,
                           metadata = \<lparr> mlevel = None, hasMedia = None, contentTypes = [] \<rparr> \<rparr>,
             items = [] \<rparr>"
proof -
  obtain el es where seq: "sequence = el # es"
    using assms(1) by (cases sequence) auto
  have el: "plainElement el" and es: "list_all plainElement es"
    using assms(2) seq by auto
  have s2: "groupStep_v2 sequence 0 el (None, \<lparr> main = None, items = [] \<rparr>)
              = Inr (Some ((createNewGroup_v2 None)\<lparr> content := [el] \<rparr>), \<lparr> main = None, items = [] \<rparr>)"
    using el by (simp add: groupStep_v2_def plainElement_def createNewGroup_v2_def)
  have s1: "groupStep_v1 sequence 0 el (None, \<lparr> main = None, items = [] \<rparr>)
              = (Some (createNewGroup_v1\<lparr> content := [el] \<rparr>), \<lparr> main = None, items = [] \<rparr>)"
    using el by (simp add: groupStep_v1_def plainElement_def createNewGroup_v1_def)
  have v2: "processGroups_v2 sequence =
           Inr \<lparr> main = None,
                 items = [\<lparr> headings = emptyHeadings, content = sequence,
                            metadata = \<lparr> mlevel = None,
                              hasMedia = Some (list_ex (\<lambda>el. etype el = TImage) sequence),
                              contentTypes = insertionOrder [] (map etype sequence) \<rparr> \<rparr>] \<rparr>"
    unfolding processGroups_v2_def seq
    by (simp add: s2[unfolded seq] groupLoop_v2_plain[OF es] closeGroup_v2_def
        addGroupToStructure_v2_def isMainGroup_v2_def createNewGroup_v2_def emptyHeadings_def)
  have v1: "processGroups_v1 sequence =
           \<lparr> main = Some \<lparr> headings = emptyHeadings, content = sequence,
                           metadata = \<lparr> mlevel = None, hasMedia = None, contentTypes = [] \<rparr> \<rparr>,
             items = [] \<rparr>"
    unfolding processGroups_v1_def seq
    by (simp add: s1[unfolded seq] groupLoop_v1_plain[OF es] closeGroup_v1_def
        addGroupToStructure_v1_def isMainGroup_v1_def createNewGroup_v1_def emptyHeadings_def
        secondPass_v1_def)
  show ?thesis using v2 v1 by simp
qed

theorem no_headings_single_group_witness:
  "[Paragraph ''Intro'' 0, ImageE Content (Some ''a.png'') ''A'' None 1] \<noteq> []
   \<and> list_all plainElement [Paragraph ''Intro'' 0, ImageE Content (Some ''a.png'') ''A'' None 1]
   \<and> processGroups_v2 [Paragraph ''Intro'' 0, ImageE Content (Some ''a.png'') ''A'' None 1] =
       Inr \<lparr> main = None,
             items = [\<lparr> headings = emptyHeadings,
                        content = [Paragraph ''Intro'' 0,
                                   ImageE Content (Some ''a.png'') ''A'' None 1],
                        metadata = \<lparr> mlevel = None, hasMedia = Some True,
                                     contentTypes = [TParagraph, TImage] \<rparr> \<rparr>] \<rparr>
   \<and> processGroups_v1 [Paragraph ''Intro'' 0, ImageE Content (Some ''a.png'') ''A'' None 1] =
       \<lparr> main = Some \<lparr> headings = emptyHeadings,
                        content = [Paragraph ''Intro'' 0,
                                   ImageE Content (Some ''a.png'') ''A'' None 1],
                        metadata = \<lparr> mlevel = None, hasMedia = None, contentTypes = [] \<rparr> \<rparr>,
         items = [] \<rparr>"
proof -
  have h1: "[Paragraph ''Intro'' 0, ImageE Content (Some ''a.png'') ''A'' None 1] \<noteq> []"
    by simp
  have h2: "list_all plainElement
              [Paragraph ''Intro'' 0, ImageE Content (Some ''a.png'') ''A'' None 1]"
    by (simp add: plainElement_def)
  show ?thesis
    using h1 h2 no_headings_single_group [OF h1 h2]
    by simp
qed

section \<open>Properties of the sequencer\<close>

subsection \<open>Positions grow along the sequence\<close>

text \<open>
  Every element takes the value of the counter at the node it comes from, and the
  counter grows at every node, so the positions of a sequence are strictly
  increasing. The invariant of the traversal: the positions so far are increasing and
  below the counter.
\<close>

lemma processImageNode_v2_position: "position (processImageNode_v2 n pos) = pos"
  by (simp add: processImageNode_v2_def Let_def split: option.splits prod.splits)

lemma processImageNode_v1_position: "position (processImageNode_v1 n pos) = pos"
  by (simp add: processImageNode_v1_def Let_def split: option.splits prod.splits)

lemma processNode_v2_position:
  "processNode_v2 n pos = Inr (Some el) \<Longrightarrow> position el = pos"
  by (auto simp: processNode_v2_def processImageNode_v2_position
      split: if_splits option.splits list.splits)

lemma processNode_v1_position:
  "processNode_v1 n pos = Inr (Some el) \<Longrightarrow> position el = pos"
  by (auto simp: processNode_v1_def processImageNode_v1_position
      split: if_splits option.splits list.splits sum.splits bool.splits)

lemma emit_positionsBelow:
  assumes pn: "\<And>n pos el. pn n pos = Inr (Some el) \<Longrightarrow> position el = pos"
    and inv: "positionsBelow s" and step: "emit pn n s = Inr s'"
  shows "positionsBelow s' \<and> fst s < fst s'"
proof (cases s)
  case (Pair pos sequence)
  show ?thesis
  proof (cases "pn n pos")
    case (Inl e)
    then show ?thesis using step by (simp add: emit_def Pair)
  next
    case (Inr r)
    show ?thesis
    proof (cases r)
      case None
      then have "s' = (pos + 1, sequence)"
        using step Inr by (simp add: emit_def Pair)
      then show ?thesis
        using inv by (auto simp: positionsBelow_def Pair list_all_iff)
    next
      case (Some el)
      then have s': "s' = (pos + 1, sequence @ [el])"
        using step Inr by (simp add: emit_def Pair)
      have "position el = pos"
        using pn Inr Some by simp
      then show ?thesis
        using inv by (auto simp: positionsBelow_def Pair s' list_all_iff sorted_wrt_append)
    qed
  qed
qed

lemma visit_positionsBelow:
  assumes pn: "\<And>n pos el. pn n pos = Inr (Some el) \<Longrightarrow> position el = pos"
  shows "visit cb n s = Inr s' \<Longrightarrow> cb = emit pn \<Longrightarrow> positionsBelow s
           \<Longrightarrow> positionsBelow s' \<and> fst s < fst s'"
    and "visitEach cb ns s = Inr s' \<Longrightarrow> cb = emit pn \<Longrightarrow> positionsBelow s
           \<Longrightarrow> positionsBelow s' \<and> fst s \<le> fst s'"
proof (induction cb n s and cb ns s arbitrary: s' and s' rule: visit_visitEach.induct)
  case (1 cb t p cs s)
  from "1.prems"(1,2) obtain s1 where s1: "emit pn (Node t p cs) s = Inr s1"
    by (auto split: sum.splits)
  have inv1: "positionsBelow s1 \<and> fst s < fst s1"
    using emit_positionsBelow[OF pn "1.prems"(3) s1] .
  show ?case
  proof (cases cs)
    case None
    then show ?thesis using "1.prems"(1,2) s1 inv1 by simp
  next
    case (Some ns)
    then have rest: "visitEach cb ns s1 = Inr s'"
      using "1.prems"(1,2) s1 by simp
    have "cb (Node t p cs) s = Inr s1"
      using s1 "1.prems"(2) by simp
    from "1.IH"[OF this Some rest "1.prems"(2)] inv1 show ?thesis by auto
  qed
next
  case (2 cb s)
  then show ?case by simp
next
  case (3 cb n ns s)
  from "3.prems"(1) obtain s1 where s1: "visit cb n s = Inr s1"
    and rest: "visitEach cb ns s1 = Inr s'"
    by (auto split: sum.splits)
  have a: "positionsBelow s1 \<and> fst s < fst s1"
    using "3.IH"(1)[OF s1 "3.prems"(2,3)] .
  have b: "positionsBelow s' \<and> fst s1 \<le> fst s'"
    using "3.IH"(2)[OF s1 rest "3.prems"(2)] a by simp
  show ?case using a b by auto
qed

lemma processSequence_v2_ordered:
  assumes "processSequence_v2 ast = Inr sequence"
  shows "sorted_wrt (<) (map position sequence)"
proof -
  obtain pos where v: "visit (emit processNode_v2) ast (0, []) = Inr (pos, sequence)"
    using assms by (auto simp: processSequence_v2_def split: sum.splits prod.splits)
  have "positionsBelow (0, [])" by (simp add: positionsBelow_def)
  from visit_positionsBelow(1)[of processNode_v2, OF processNode_v2_position v refl this]
  show ?thesis by (simp add: positionsBelow_def)
qed

lemma processSequence_v1_ordered:
  assumes "processSequence_v1 ast = Inr sequence"
  shows "sorted_wrt (<) (map position sequence)"
proof -
  obtain pos where v: "visit (emit processNode_v1) ast (0, []) = Inr (pos, sequence)"
    using assms by (auto simp: processSequence_v1_def split: sum.splits prod.splits)
  have "positionsBelow (0, [])" by (simp add: positionsBelow_def)
  from visit_positionsBelow(1)[of processNode_v1, OF processNode_v1_position v refl this]
  show ?thesis by (simp add: positionsBelow_def)
qed

subsection \<open>The root takes position 0\<close>

text \<open>
  When the first node visited emits nothing, as the root of a document does, every
  element has a position of at least 1: the first element of a non-empty sequence
  never has position 0.
\<close>

lemma emit_positionsFrom:
  assumes pn: "\<And>n pos el. pn n pos = Inr (Some el) \<Longrightarrow> position el = pos"
    and inv: "positionsFrom lo s" and step: "emit pn n s = Inr s'"
  shows "positionsFrom lo s'"
proof (cases s)
  case (Pair pos sequence)
  show ?thesis
  proof (cases "pn n pos")
    case (Inl e)
    then show ?thesis using step by (simp add: emit_def Pair)
  next
    case (Inr r)
    show ?thesis
    proof (cases r)
      case None
      then have "s' = (pos + 1, sequence)"
        using step Inr by (simp add: emit_def Pair)
      then show ?thesis
        using inv by (simp add: positionsFrom_def Pair)
    next
      case (Some el)
      then have s': "s' = (pos + 1, sequence @ [el])"
        using step Inr by (simp add: emit_def Pair)
      have "position el = pos"
        using pn Inr Some by simp
      then show ?thesis
        using inv by (simp add: positionsFrom_def Pair s')
    qed
  qed
qed

lemma visit_positionsFrom:
  assumes pn: "\<And>n pos el. pn n pos = Inr (Some el) \<Longrightarrow> position el = pos"
  shows "visit cb n s = Inr s' \<Longrightarrow> cb = emit pn \<Longrightarrow> positionsFrom lo s
           \<Longrightarrow> positionsFrom lo s'"
    and "visitEach cb ns s = Inr s' \<Longrightarrow> cb = emit pn \<Longrightarrow> positionsFrom lo s
           \<Longrightarrow> positionsFrom lo s'"
proof (induction cb n s and cb ns s arbitrary: s' and s' rule: visit_visitEach.induct)
  case (1 cb t p cs s)
  from "1.prems"(1,2) obtain s1 where s1: "emit pn (Node t p cs) s = Inr s1"
    by (auto split: sum.splits)
  have inv1: "positionsFrom lo s1"
    using emit_positionsFrom[OF pn "1.prems"(3) s1] .
  show ?case
  proof (cases cs)
    case None
    then show ?thesis using "1.prems"(1,2) s1 inv1 by simp
  next
    case (Some ns)
    then have rest: "visitEach cb ns s1 = Inr s'"
      using "1.prems"(1,2) s1 by simp
    have "cb (Node t p cs) s = Inr s1"
      using s1 "1.prems"(2) by simp
    from "1.IH"[OF this Some rest "1.prems"(2) inv1] show ?thesis .
  qed
next
  case (2 cb s)
  then show ?case by simp
next
  case (3 cb n ns s)
  from "3.prems"(1) obtain s1 where s1: "visit cb n s = Inr s1"
    and rest: "visitEach cb ns s1 = Inr s'"
    by (auto split: sum.splits)
  have a: "positionsFrom lo s1"
    using "3.IH"(1)[OF s1 "3.prems"(2,3)] .
  show ?case
    using "3.IH"(2)[OF s1 rest "3.prems"(2) a] .
qed

lemma skipped_root_positions:
  assumes pn: "\<And>n pos el. pn n pos = Inr (Some el) \<Longrightarrow> position el = pos"
    and root: "pn ast 0 = Inr None"
    and run: "visit (emit pn) ast (0, []) = Inr (pos, sequence)"
  shows "list_all (\<lambda>el. 1 \<le> position el) sequence"
proof (cases ast)
  case (Node t p cs)
  have e: "emit pn (Node t p cs) (0, []) = Inr (1, [])"
    using root by (simp add: emit_def Node)
  show ?thesis
  proof (cases cs)
    case None
    then show ?thesis using run e by (simp add: Node)
  next
    case (Some ns)
    then have children: "visitEach (emit pn) ns (1, []) = Inr (pos, sequence)"
      using run e by (simp add: Node)
    have start: "positionsFrom 1 (1, [])"
      by (simp add: positionsFrom_def)
    have "positionsFrom 1 (pos, sequence)"
      by (rule visit_positionsFrom(2)[where pn = pn, OF pn children refl start])
    then show ?thesis by (simp add: positionsFrom_def)
  qed
qed

lemma processSequence_v2_first_position:
  assumes "processSequence_v2 ast = Inr sequence" and "processNode_v2 ast 0 = Inr None"
    and "sequence \<noteq> []"
  shows "position (sequence ! 0) \<noteq> 0"
proof -
  obtain pos where v: "visit (emit processNode_v2) ast (0, []) = Inr (pos, sequence)"
    using assms(1) by (auto simp: processSequence_v2_def split: sum.splits prod.splits)
  have "list_all (\<lambda>el. 1 \<le> position el) sequence"
    using skipped_root_positions[of processNode_v2, OF processNode_v2_position assms(2) v] .
  then show ?thesis
    using assms(3) by (cases sequence) simp_all
qed

lemma processSequence_v1_first_position:
  assumes "processSequence_v1 ast = Inr sequence" and "processNode_v1 ast 0 = Inr None"
    and "sequence \<noteq> []"
  shows "position (sequence ! 0) \<noteq> 0"
proof -
  obtain pos where v: "visit (emit processNode_v1) ast (0, []) = Inr (pos, sequence)"
    using assms(1) by (auto simp: processSequence_v1_def split: sum.splits prod.splits)
  have "list_all (\<lambda>el. 1 \<le> position el) sequence"
    using skipped_root_positions[of processNode_v1, OF processNode_v1_position assms(2) v] .
  then show ?thesis
    using assms(3) by (cases sequence) simp_all
qed

lemma processSequence_document_first_position:
  assumes "processSequence_v2 (rootNode cs) = Inr sequence" and "sequence \<noteq> []"
  shows "position (sequence ! 0) \<noteq> 0"
proof -
  have "processNode_v2 (rootNode cs) 0 = Inr None"
    by (simp add: processNode_v2_def rootNode_def)
  from processSequence_v2_first_position[OF assms(1) this assms(2)] show ?thesis .
qed

subsection \<open>The default role of an image\<close>

text \<open>
  Away from position 0 an image whose alt text names no role gets the role
  \<^verbatim>\<open>content\<close> in the second version, and position 0 belongs to the root of a
  document.
\<close>

lemma processImageNode_v2_default_role:
  assumes "0 < pos"
    and "roleMatch (case orNull (nalt (nprops n)) of Some s \<Rightarrow> s | None \<Rightarrow> []) = None"
  shows "role (processImageNode_v2 n pos) = Content"
  using assms by (simp add: processImageNode_v2_def Let_def)

subsection \<open>Headings and their label markers\<close>

text \<open>
  \<open>firstMatch\<close> fails exactly when the matcher fails on every suffix. The pattern
  that strips the content accepts only what the pattern of \<^verbatim>\<open>extractLabels\<close>
  accepts too, so a heading in which \<^verbatim>\<open>extractLabels\<close> finds no marker gets no
  labels and keeps its text.
\<close>

lemma firstMatch_None_iff:
  "firstMatch m pre s = None \<longleftrightarrow> (\<forall>k\<le>length s. m (drop k s) = None)"
proof (induction s arbitrary: pre)
  case Nil
  show ?case by (simp split: option.splits)
next
  case (Cons c cs)
  have "(\<forall>k\<le>length (c # cs). m (drop k (c # cs)) = None)
          \<longleftrightarrow> m (c # cs) = None \<and> (\<forall>k\<le>length cs. m (drop k cs) = None)"
  proof
    assume a: "\<forall>k\<le>length (c # cs). m (drop k (c # cs)) = None"
    have "m (c # cs) = None" using a[rule_format, of 0] by simp
    moreover have "m (drop k cs) = None" if "k \<le> length cs" for k
      using a[rule_format, of "Suc k"] that by simp
    ultimately show "m (c # cs) = None \<and> (\<forall>k\<le>length cs. m (drop k cs) = None)" by simp
  next
    assume a: "m (c # cs) = None \<and> (\<forall>k\<le>length cs. m (drop k cs) = None)"
    show "\<forall>k\<le>length (c # cs). m (drop k (c # cs)) = None"
    proof (intro allI impI)
      fix k assume "k \<le> length (c # cs)"
      then show "m (drop k (c # cs)) = None"
        using a by (cases k) simp_all
    qed
  qed
  then show ?case
    using Cons.IH by (simp split: option.splits)
qed

lemma not_space_brace: "\<not> isSpaceChar CHR ''}''"
  by (simp add: isSpaceChar_def)

lemma singleLabelMarker_labelMarker:
  assumes "singleLabelMarker t = Some u"
  shows "labelMarker (dropWhile isSpaceChar t) \<noteq> None"
proof -
  from assms obtain r r1 where t: "dropWhile isSpaceChar t = CHR ''{'' # CHR ''.'' # r"
    and l: "takeWhile isLabelChar r \<noteq> []"
    and e: "dropWhile isLabelChar r = CHR ''}'' # r1"
    and ws: "list_all isSpaceChar r1"
    by (auto simp: singleLabelMarker_def split: list.splits if_splits)
  have "labelGroup (CHR ''.'' # r) = Some (CHR ''.'' # takeWhile isLabelChar r, CHR ''}'' # r1)"
    using l e not_space_brace by (subst labelGroup.simps) (simp add: Let_def)
  then show ?thesis
    using t ws by (simp add: labelMarker_def)
qed

lemma no_marker_nothing_stripped:
  assumes "firstMatch labelMarker [] s = None"
  shows "stripLabelMarker s = s"
proof (cases "firstMatch singleLabelMarker [] s")
  case None
  then show ?thesis by (simp add: stripLabelMarker_def)
next
  case (Some r)
  then obtain k where k: "k \<le> length s" and m: "singleLabelMarker (drop k s) \<noteq> None"
    using firstMatch_None_iff[of singleLabelMarker "[]" s] by auto
  let ?j = "length (takeWhile isSpaceChar (drop k s))"
  have d: "dropWhile isSpaceChar (drop k s) = drop (k + ?j) s"
    by (metis add.commute drop_drop dropWhile_eq_drop)
  have "labelMarker (drop (k + ?j) s) \<noteq> None"
    using m singleLabelMarker_labelMarker[of "drop k s"] d by auto
  moreover have "labelMarker (drop (k + ?j) s) = None"
  proof (cases "k + ?j \<le> length s")
    case True
    then show ?thesis
      using assms firstMatch_None_iff[of labelMarker "[]" s] by simp
  next
    case False
    then have "drop (k + ?j) s = drop (length s) s" by simp
    then show ?thesis
      using assms firstMatch_None_iff[of labelMarker "[]" s] by (metis order_refl)
  qed
  ultimately show ?thesis by simp
qed

lemma heading_without_marker:
  assumes "firstMatch labelMarker [] (getTextContent (Node ''heading'' p (Some cs))) = None"
  shows "processNode_v2 (Node ''heading'' p (Some cs)) pos
           = Inr (Some (Heading (depth p) (getTextContent (Node ''heading'' p (Some cs))) pos []))"
  using assms no_marker_nothing_stripped[OF assms]
  by (simp add: processNode_v2_def extractLabels_v2_def)

text \<open>
  A text that ends in a marker with one label, after a body without a brace: the
  second version returns the label and the body.
\<close>

lemma firstMatch_at:
  assumes "\<forall>j<k. m (drop j s) = None" and "m (drop k s) = Some r" and "k \<le> length s"
  shows "firstMatch m pre s = Some (pre @ take k s, r)"
  using assms
proof (induction s arbitrary: pre k)
  case Nil
  then show ?case by simp
next
  case (Cons c cs)
  show ?case
  proof (cases k)
    case 0
    then show ?thesis using Cons.prems(2) by simp
  next
    case (Suc k')
    have here: "m (c # cs) = None"
      using Cons.prems(1)[rule_format, of 0] Suc by simp
    have before: "\<forall>j<k'. m (drop j cs) = None"
    proof (intro allI impI)
      fix j assume "j < k'"
      then show "m (drop j cs) = None"
        using Cons.prems(1)[rule_format, of "Suc j"] Suc by simp
    qed
    have "firstMatch m (pre @ [c]) cs = Some ((pre @ [c]) @ take k' cs, r)"
      using Cons.IH[OF before, of "pre @ [c]"] Cons.prems(2,3) Suc by simp
    then show ?thesis
      using here Suc by simp
  qed
qed

lemma label_not_space: "isLabelChar c \<Longrightarrow> \<not> isSpaceChar c"
  by (auto simp: isLabelChar_def isWordChar_def isSpaceChar_def Let_def)

lemma not_label_brace: "\<not> isLabelChar CHR ''}''" "\<not> isSpaceChar CHR ''{''" "\<not> isSpaceChar CHR ''.''"
  by (simp_all add: isLabelChar_def isWordChar_def isSpaceChar_def)

lemma takeWhile_label:
  assumes "list_all isLabelChar l"
  shows "takeWhile isLabelChar (l @ CHR ''}'' # ws) = l"
    and "dropWhile isLabelChar (l @ CHR ''}'' # ws) = CHR ''}'' # ws"
  using assms not_label_brace(1) by (induction l) simp_all

lemma dropWhile_spaces:
  assumes "list_all isSpaceChar ws" and "\<not> isSpaceChar c"
  shows "dropWhile isSpaceChar (ws @ c # r) = c # r"
  using assms by (induction ws) simp_all

lemma singleLabelMarker_marker:
  assumes "l \<noteq> []" "list_all isLabelChar l" "list_all isSpaceChar ws1" "list_all isSpaceChar ws2"
  shows "singleLabelMarker (ws1 @ CHR ''{'' # CHR ''.'' # l @ CHR ''}'' # ws2) = Some ()"
  using assms takeWhile_label[OF assms(2), of ws2]
  by (simp add: singleLabelMarker_def dropWhile_spaces not_label_brace)

lemma labelMarker_marker:
  assumes "l \<noteq> []" "list_all isLabelChar l" "list_all isSpaceChar ws2"
  shows "labelMarker (CHR ''{'' # CHR ''.'' # l @ CHR ''}'' # ws2) = Some (CHR ''.'' # l)"
proof -
  have "labelGroup (CHR ''.'' # l @ CHR ''}'' # ws2) = Some (CHR ''.'' # l, CHR ''}'' # ws2)"
    using assms(1) takeWhile_label[OF assms(2), of ws2] not_space_brace
    by (subst labelGroup.simps) (simp add: Let_def)
  then show ?thesis
    using assms(3) by (simp add: labelMarker_def)
qed

lemma head_of_body:
  assumes "list_all (\<lambda>c. c \<noteq> CHR ''{'') body" and "\<not> isSpaceChar (last body)"
    and "j < length body"
  shows "\<exists>c r. dropWhile isSpaceChar (drop j body @ rest) = c # r \<and> c \<noteq> CHR ''{''"
proof -
  let ?b = "drop j body"
  have ne: "?b \<noteq> []" using assms(3) by simp
  have "last ?b = last body" using assms(3) by simp
  then have "\<not> isSpaceChar (last ?b)" using assms(2) by simp
  then obtain x where x: "x \<in> set ?b" "\<not> isSpaceChar x"
    using ne last_in_set by blast
  have d: "dropWhile isSpaceChar (?b @ rest) = dropWhile isSpaceChar ?b @ rest"
    using x by (rule dropWhile_append1)
  have dne: "dropWhile isSpaceChar ?b \<noteq> []"
    using x by (auto simp: dropWhile_eq_Nil_conv)
  then obtain c r where cr: "dropWhile isSpaceChar ?b = c # r"
    by (cases "dropWhile isSpaceChar ?b") auto
  have "c \<in> set ?b"
    by (metis cr list.set_intros(1) set_dropWhileD)
  then have "c \<in> set body"
    by (meson in_set_dropD)
  then have "c \<noteq> CHR ''{''"
    using assms(1) by (auto simp: list_all_iff)
  then show ?thesis using d cr by simp
qed

lemma single_label_heading_text:
  assumes l: "l \<noteq> []" "list_all isLabelChar l"
    and ws: "list_all isSpaceChar ws1" "list_all isSpaceChar ws2"
    and body: "list_all (\<lambda>c. c \<noteq> CHR ''{'') body" "body = [] \<or> \<not> isSpaceChar (last body)"
  shows "stripLabelMarker (body @ ws1 @ CHR ''{'' # CHR ''.'' # l @ CHR ''}'' # ws2) = body"
    and "firstMatch labelMarker [] (body @ ws1 @ CHR ''{'' # CHR ''.'' # l @ CHR ''}'' # ws2)
           = Some (body @ ws1, CHR ''.'' # l)"
proof -
  let ?m = "CHR ''{'' # CHR ''.'' # l @ CHR ''}'' # ws2"
  let ?s = "body @ ws1 @ ?m"
  have s1: "\<forall>j<length body. singleLabelMarker (drop j ?s) = None"
  proof (intro allI impI)
    fix j assume j: "j < length body"
    then have nb: "\<not> isSpaceChar (last body)" using body(2) by auto
    obtain c r where "dropWhile isSpaceChar (drop j body @ ws1 @ ?m) = c # r" and "c \<noteq> CHR ''{''"
      using head_of_body[OF body(1) nb j] by blast
    then show "singleLabelMarker (drop j ?s) = None"
      using j by (simp add: singleLabelMarker_def split: list.splits)
  qed
  have s2: "singleLabelMarker (drop (length body) ?s) = Some ()"
    using singleLabelMarker_marker[OF l ws] by simp
  have "firstMatch singleLabelMarker [] ?s = Some ([] @ take (length body) ?s, ())"
    by (rule firstMatch_at[OF s1 s2]) simp
  then show "stripLabelMarker ?s = body"
    by (simp add: stripLabelMarker_def)
  define w where "w = body @ ws1"
  have wset: "\<forall>c\<in>set w. c \<noteq> CHR ''{''"
    using body(1) ws(1) not_label_brace(2) by (auto simp: w_def list_all_iff)
  have m1: "\<forall>j<length w. labelMarker (drop j (w @ ?m)) = None"
  proof (intro allI impI)
    fix j assume j: "j < length w"
    then have "drop j w \<noteq> []" by simp
    then obtain c r where cr: "drop j w = c # r"
      by (cases "drop j w") auto
    have "c \<in> set w"
      by (metis cr in_set_dropD list.set_intros(1))
    then have "c \<noteq> CHR ''{''"
      using wset by simp
    moreover have "drop j (w @ ?m) = (c # r) @ ?m"
      using j cr by simp
    ultimately show "labelMarker (drop j (w @ ?m)) = None"
      by (simp add: labelMarker_def)
  qed
  have m2: "labelMarker (drop (length w) (w @ ?m)) = Some (CHR ''.'' # l)"
    using labelMarker_marker[OF l ws(2)] by simp
  have "firstMatch labelMarker [] (w @ ?m) = Some ([] @ take (length w) (w @ ?m), CHR ''.'' # l)"
    by (rule firstMatch_at[OF m1 m2]) simp
  then show "firstMatch labelMarker [] ?s = Some (body @ ws1, CHR ''.'' # l)"
    by (simp add: w_def)
qed

lemma splitSpaces_label:
  assumes "list_all isLabelChar l"
  shows "splitSpaces (CHR ''.'' # l) = [CHR ''.'' # l]"
proof -
  have "\<forall>c\<in>set (CHR ''.'' # l). \<not> isSpaceChar c"
    using assms label_not_space not_label_brace(3) by (auto simp: list_all_iff)
  then have "takeWhile (\<lambda>c. \<not> isSpaceChar c) (CHR ''.'' # l) = CHR ''.'' # l"
    and "dropWhile (\<lambda>c. \<not> isSpaceChar c) (CHR ''.'' # l) = []"
    by (simp_all add: takeWhile_eq_all_conv[THEN iffD2] dropWhile_eq_Nil_conv)
  then show ?thesis
    by (simp add: splitSpaces.simps[of "CHR ''.'' # l"] Let_def)
qed

lemma heading_with_one_label:
  assumes l: "l \<noteq> []" "list_all isLabelChar l"
    and ws: "list_all isSpaceChar ws1" "list_all isSpaceChar ws2"
    and body: "list_all (\<lambda>c. c \<noteq> CHR ''{'') body" "body = [] \<or> \<not> isSpaceChar (last body)"
    and whole: "getTextContent (Node ''heading'' p (Some cs))
                 = body @ ws1 @ CHR ''{'' # CHR ''.'' # l @ CHR ''}'' # ws2"
  shows "processNode_v2 (Node ''heading'' p (Some cs)) pos
           = Inr (Some (Heading (depth p) body pos [l]))"
  using single_label_heading_text[OF l ws body] splitSpaces_label[OF l(2)]
  by (simp add: processNode_v2_def extractLabels_v2_def whole del: getTextContent.simps)

text \<open>
  A marker in which white space follows the first label, as it does when a second
  label comes, is never stripped from the content.
\<close>

lemma only_brace:
  assumes a: "CHR ''{'' \<notin> set A" and b: "CHR ''{'' \<notin> set B"
    and d: "drop k (A @ CHR ''{'' # B) = CHR ''{'' # R"
  shows "R = B"
proof (cases "k < length A")
  case True
  then have "drop k (A @ CHR ''{'' # B) = drop k A @ CHR ''{'' # B" by simp
  moreover from True obtain c r where cr: "drop k A = c # r"
    by (cases "drop k A") auto
  ultimately have "c = CHR ''{''" using d by simp
  moreover have "c \<in> set A"
    by (metis cr in_set_dropD list.set_intros(1))
  ultimately show ?thesis using a by simp
next
  case False
  show ?thesis
  proof (cases "k = length A")
    case True
    then show ?thesis using d by simp
  next
    case ne: False
    then have "drop k (A @ CHR ''{'' # B) = drop (k - length A - 1) B"
      using False by (simp add: drop_Cons')
    then have "CHR ''{'' \<in> set (drop (k - length A - 1) B)"
      using d by simp
    then show ?thesis
      using b by (meson in_set_dropD)
  qed
qed

lemma marker_with_more_labels_not_stripped:
  assumes body: "CHR ''{'' \<notin> set body" and ws: "list_all isSpaceChar ws1"
    and l: "list_all isLabelChar l1"
    and sp: "isSpaceChar sp" and rest: "CHR ''{'' \<notin> set rest"
  shows "stripLabelMarker (body @ ws1 @ CHR ''{'' # CHR ''.'' # l1 @ sp # rest)
           = body @ ws1 @ CHR ''{'' # CHR ''.'' # l1 @ sp # rest"
proof -
  let ?A = "body @ ws1"
  let ?B = "CHR ''.'' # l1 @ sp # rest"
  let ?s = "?A @ CHR ''{'' # ?B"
  have a: "CHR ''{'' \<notin> set ?A"
    using body ws not_label_brace(2) by (auto simp: list_all_iff)
  have lb: "CHR ''{'' \<notin> set l1"
    using l by (auto simp: list_all_iff isLabelChar_def isWordChar_def)
  have b: "CHR ''{'' \<notin> set ?B"
    using lb rest sp not_label_brace(2) by auto
  have spl: "\<not> isLabelChar sp"
    using sp label_not_space by blast
  have t: "takeWhile isLabelChar (l1 @ sp # rest) = l1"
       "dropWhile isLabelChar (l1 @ sp # rest) = sp # rest"
    using l spl by (induction l1) simp_all
  have spb: "sp \<noteq> CHR ''}''"
    using sp not_space_brace by auto
  have "singleLabelMarker (drop k ?s) = None" for k
  proof (rule ccontr)
    assume "singleLabelMarker (drop k ?s) \<noteq> None"
    then obtain r r1 where
        d: "dropWhile isSpaceChar (drop k ?s) = CHR ''{'' # CHR ''.'' # r"
      and e: "dropWhile isLabelChar r = CHR ''}'' # r1"
      by (auto simp: singleLabelMarker_def split: list.splits if_splits)
    have "dropWhile isSpaceChar (drop k ?s)
            = drop (k + length (takeWhile isSpaceChar (drop k ?s))) ?s"
      by (metis add.commute drop_drop dropWhile_eq_drop)
    then have "drop (k + length (takeWhile isSpaceChar (drop k ?s))) ?s
                 = CHR ''{'' # CHR ''.'' # r"
      using d by simp
    from only_brace[OF a b this] have "r = l1 @ sp # rest" by simp
    then show False
      using e t(2) spb by simp
  qed
  then have "firstMatch singleLabelMarker [] ?s = None"
    by (simp add: firstMatch_None_iff)
  then show ?thesis
    by (simp add: stripLabelMarker_def)
qed

subsection \<open>The general results at the examples\<close>

lemma first_position_instance:
  "processSequence_v2 (rootNode [paragraphNode [textNode ''Body'']]) = Inr [Paragraph ''Body'' 1]
   \<and> position ([Paragraph ''Body'' 1] ! 0) \<noteq> 0"
proof -
  have r: "processSequence_v2 (rootNode [paragraphNode [textNode ''Body'']]) = Inr [Paragraph ''Body'' 1]"
    by code_simp
  have "[Paragraph ''Body'' 1] \<noteq> []" by simp
  from processSequence_document_first_position[OF r this] r show ?thesis by simp
qed

lemma heading_with_one_label_instance:
  "processNode_v2 (headingNode 2 [textNode ''Natural Writing {.highlight}'']) 5
     = Inr (Some (Heading 2 ''Natural Writing'' 5 [''highlight'']))"
proof -
  have l: "''highlight'' \<noteq> []" "list_all isLabelChar ''highlight''"
    by (simp_all add: isLabelChar_def isWordChar_def)
  have ws: "list_all isSpaceChar '' ''" "list_all isSpaceChar ''''"
    by (simp_all add: isSpaceChar_def)
  have body: "list_all (\<lambda>c. c \<noteq> CHR ''{'') ''Natural Writing''"
      "''Natural Writing'' = [] \<or> \<not> isSpaceChar (last ''Natural Writing'')"
    by (simp_all add: isSpaceChar_def)
  have whole: "getTextContent (Node ''heading'' (noProps\<lparr> depth := 2 \<rparr>)
                 (Some [textNode ''Natural Writing {.highlight}'']))
               = ''Natural Writing'' @ '' '' @ CHR ''{'' # CHR ''.'' # ''highlight'' @ CHR ''}'' # ''''"
    by (simp add: textNode_def noProps_def)
  show ?thesis
    using heading_with_one_label[OF l ws body whole, of 5]
    by (simp add: headingNode_def noProps_def)
qed

lemma marker_with_more_labels_instance:
  "stripLabelMarker ''Features {.highlight .wide}'' = ''Features {.highlight .wide}''"
proof -
  have "stripLabelMarker (''Features'' @ '' '' @ CHR ''{'' # CHR ''.'' # ''highlight'' @ CHR '' '' # ''.wide}'')
          = ''Features'' @ '' '' @ CHR ''{'' # CHR ''.'' # ''highlight'' @ CHR '' '' # ''.wide}''"
    by (rule marker_with_more_labels_not_stripped)
       (simp_all add: isSpaceChar_def isLabelChar_def isWordChar_def)
  then show ?thesis by simp
qed

subsection \<open>The claims about the sequencer\<close>

text \<open>
  Claim C4. Position numbering: \<^verbatim>\<open>sequence[i].position\<close> should be \<^verbatim>\<open>i\<close>, with the
  position counted per emitted element. In both versions the callback of
  \<^verbatim>\<open>processSequence\<close> calls \<^verbatim>\<open>processNode(node, position++)\<close> for every node it
  visits. For a root with a level-1 heading and a paragraph the root takes 0 and the
  text node of the heading takes 2: the heading, at index 0, has position 1 and the
  paragraph, at index 1, has position 3.
\<close>

theorem processSequence_counts_visited_nodes:
  "processSequence_v2
     (rootNode [headingNode 1 [textNode ''Title''], paragraphNode [textNode ''Body'']])
     = Inr [Heading 1 ''Title'' 1 [], Paragraph ''Body'' 3]
   \<and> processSequence_v1
     (rootNode [headingNode 1 [textNode ''Title''], paragraphNode [textNode ''Body'']])
     = Inr [Heading 1 ''Title'' 1 [], Paragraph ''Body'' 3]"
  by code_simp

text \<open>
  Claim C5. The first image of the sequence should get the role \<^verbatim>\<open>background\<close> when
  its alt text names no role. The second version of \<^verbatim>\<open>processImageNode\<close> gives that
  role when \<^verbatim>\<open>position === 0\<close>, and position 0 goes to the root of the tree, so the
  first image of a document gets \<^verbatim>\<open>content\<close>; the first version has no such default.
  The tree is a root with a paragraph that holds one image. (The paragraph collapses
  into an image element and the traversal then visits the image node itself, so the
  image is emitted twice.)
\<close>

theorem first_image_not_background:
  "processSequence_v2 (rootNode [paragraphNode [imageNode ''./hero-bg.jpg'' ''Hero'']])
     = Inr [ImageE Content (Some ''./hero-bg.jpg'') ''Hero'' None 1,
            ImageE Content (Some ''./hero-bg.jpg'') ''Hero'' None 2]
   \<and> processSequence_v1 (rootNode [paragraphNode [imageNode ''./hero-bg.jpg'' ''Hero'']])
     = Inr [ImageE Content (Some ''./hero-bg.jpg'') ''Hero'' None 1,
            ImageE Content (Some ''./hero-bg.jpg'') ''Hero'' None 2]"
  by code_simp

text \<open>
  Claim C6. A heading whose text ends in \<^verbatim>\<open>{.label1 .label2}\<close> should get both
  labels and a content without the marker. In the second version \<^verbatim>\<open>extractLabels\<close>
  accepts several labels, and the pattern that strips the content,
  \<^verbatim>\<open>/\s*{\.[\w-]+}\s*$/\<close>, accepts one: with two labels the labels are extracted and
  the marker stays in the content. In the first version \<^verbatim>\<open>extractLabels\<close> returns
  the empty array and nothing is stripped, even for one label.
\<close>

theorem heading_marker_with_two_labels_not_stripped:
  "processNode_v2 (headingNode 2 [textNode ''Features {.highlight .wide}'']) 1
     = Inr (Some (Heading 2 ''Features {.highlight .wide}'' 1 [''highlight'', ''wide'']))
   \<and> processNode_v1 (headingNode 2 [textNode ''Natural Writing {.highlight}'']) 1
     = Inr (Some (Heading 2 ''Natural Writing {.highlight}'' 1 []))"
  by code_simp

text \<open>With one label the second version does what the claim says.\<close>

lemma heading_marker_with_one_label:
  "processNode_v2 (headingNode 2 [textNode ''Natural Writing {.highlight}'']) 1
     = Inr (Some (Heading 2 ''Natural Writing'' 1 [''highlight'']))"
  by code_simp

section \<open>Properties of the type indexer\<close>

subsection \<open>Sorting a permutation of an ordered list\<close>

text \<open>
  When the keys of a list are strictly increasing, sorting any permutation of the list
  by the key gives the list back.
\<close>

lemma filter_key_singleton:
  fixes f :: "'a \<Rightarrow> nat"
  assumes "sorted_wrt (<) (map f ys)" and "k \<in> set ys"
  shows "filter (\<lambda>x. f k = f x) ys = [k]"
  using assms
proof (induction ys)
  case Nil
  then show ?case by simp
next
  case (Cons y ys)
  show ?case
  proof (cases "k = y")
    case True
    have "\<forall>x\<in>set ys. f y < f x" using Cons.prems(1) by simp
    then have "filter (\<lambda>x. f y = f x) ys = []"
      by (auto simp: filter_empty_conv)
    then show ?thesis using True by simp
  next
    case False
    then have k: "k \<in> set ys" using Cons.prems(2) by simp
    have "\<forall>x\<in>set ys. f y < f x" using Cons.prems(1) by simp
    then have "f k \<noteq> f y" using k by auto
    moreover have "filter (\<lambda>x. f k = f x) ys = [k]"
      using Cons.IH Cons.prems(1) k by simp
    ultimately show ?thesis by simp
  qed
qed

lemma sort_key_of_permutation:
  fixes f :: "'a \<Rightarrow> nat"
  assumes perm: "mset xs = mset ys" and ord: "sorted_wrt (<) (map f ys)"
  shows "sort_key f xs = ys"
proof (rule properties_for_sort_key)
  show "mset ys = mset xs" using perm by simp
next
  fix k assume k: "k \<in> set ys"
  have ys: "filter (\<lambda>x. f k = f x) ys = [k]"
    using filter_key_singleton[OF ord k] .
  have "mset (filter (\<lambda>x. f k = f x) xs) = mset (filter (\<lambda>x. f k = f x) ys)"
    using perm by (metis mset_filter)
  then have "mset (filter (\<lambda>x. f k = f x) xs) = {#k#}"
    using ys by simp
  then have "filter (\<lambda>x. f k = f x) xs = [k]"
    by (metis mset_single_iff)
  then show "filter (\<lambda>x. f k = f x) ys = filter (\<lambda>x. f k = f x) xs"
    using ys by simp
next
  show "sorted (map f ys)"
    using ord by (rule strict_sorted_imp_sorted)
qed

subsection \<open>Every element lands in one bucket\<close>

text \<open>
  Each call of the \<^verbatim>\<open>forEach\<close> callback appends one entry, made from the element
  at hand, to one bucket. The copy of \<^verbatim>\<open>part_005\<close> always returns, and the elements of
  its buckets are a permutation of the sequence; for a sequence in position order the
  round trip gives the sequence back. \<^verbatim>\<open>src/parser/types.js\<close> does the same as
  long as no image has the role \<^verbatim>\<open>icon\<close>, and throws as soon as one has: its role
  buckets stay the four declared ones.
\<close>

lemma setKey_present:
  "map_of kvs k = Some b \<Longrightarrow>
   mset (concat (map snd (setKey k (b @ [e]) kvs))) = mset (concat (map snd kvs)) + {#e#}"
  by (induction kvs) (auto split: if_splits)

lemma setKey_absent: "map_of kvs k = None \<Longrightarrow> setKey k v kvs = kvs @ [(k, v)]"
  by (induction kvs) (auto split: if_splits)

lemma setKey_keys: "map_of kvs k = Some b \<Longrightarrow> map fst (setKey k v kvs) = map fst kvs"
  by (induction kvs) (auto split: if_splits)

lemma bucketElements_images:
  "bucketElements (c\<lparr> byImages := imgs, byMetadata := m \<rparr>) =
     map elem (byHeadings c) @ map elem (byParagraphs c) @ map elem (concat (map snd imgs))
     @ map elem (byLists c) @ map elem (byCode c) @ map elem (byDividers c)"
  by (simp add: bucketElements_def allBuckets_def)

lemma bucketElements_split:
  "bucketElements c =
     map elem (byHeadings c) @ map elem (byParagraphs c)
     @ map elem (concat (map snd (byImages c)))
     @ map elem (byLists c) @ map elem (byCode c) @ map elem (byDividers c)"
  by (simp add: bucketElements_def allBuckets_def)

lemma setKey_last:
  "map_of kvs k = None \<Longrightarrow> setKey k v (kvs @ [(k, w)]) = kvs @ [(k, v)]"
  by (induction kvs) (auto split: if_splits)

lemma pushImage_v2_buckets:
  "\<exists>c'. pushImage_v2 e c = Inr c'
        \<and> mset (bucketElements c') = mset (bucketElements c) + {#elem e#}"
proof (cases "map_of (byImages c) (roleName (role (elem e)))")
  case None
  let ?k = "roleName (role (elem e))"
  have imgs: "setKey ?k [] (byImages c) = byImages c @ [(?k, [])]"
    using None by (rule setKey_absent)
  have look: "map_of (byImages c @ [(?k, [])]) ?k = Some []"
    using None by (simp add: map_add_def)
  have "setKey ?k [e] (byImages c @ [(?k, [])]) = byImages c @ [(?k, [e])]"
    using None by (rule setKey_last)
  then show ?thesis
    using None imgs look
    by (simp add: pushImage_v2_def Let_def bucketElements_images bucketElements_split)
next
  case (Some b)
  let ?k = "roleName (role (elem e))"
  have "mset (concat (map snd (setKey ?k (b @ [e]) (byImages c))))
          = mset (concat (map snd (byImages c))) + {#e#}"
    using Some by (rule setKey_present)
  then have "mset (map elem (concat (map snd (setKey ?k (b @ [e]) (byImages c)))))
          = mset (map elem (concat (map snd (byImages c)))) + {#elem e#}"
    by (metis image_mset_single image_mset_union mset_map)
  then show ?thesis
    using Some
    by (simp add: pushImage_v2_def Let_def bucketElements_images bucketElements_split)
qed

lemma indexStep_buckets:
  assumes push: "\<exists>c'. pushImage (mkEntry sq i el) c = Inr c'
        \<and> mset (bucketElements c') = mset (bucketElements c) + {#elem (mkEntry sq i el)#}"
  shows "\<exists>c' freq'. indexStep pushImage sq i el (c, freq) = Inr (c', freq')
        \<and> mset (bucketElements c') = mset (bucketElements c) + {#el#}"
proof (cases "etype el")
  case TImage
  obtain c' where "pushImage (mkEntry sq i el) c = Inr c'"
    and "mset (bucketElements c') = mset (bucketElements c) + {#el#}"
    using push by (auto simp: mkEntry_def)
  then show ?thesis
    using TImage by (simp add: indexStep_def Let_def)
qed (simp_all add: indexStep_def Let_def bucketElements_split mkEntry_def)

lemma indexLoop_v2_buckets:
  "\<exists>c' freq'. indexLoop pushImage_v2 sq i es (c, freq) = Inr (c', freq')
        \<and> mset (bucketElements c') = mset (bucketElements c) + mset es"
proof (induction es arbitrary: i c freq)
  case Nil
  show ?case by simp
next
  case (Cons el es)
  obtain c1 f1 where s: "indexStep pushImage_v2 sq i el (c, freq) = Inr (c1, f1)"
    and m: "mset (bucketElements c1) = mset (bucketElements c) + {#el#}"
    using indexStep_buckets[of pushImage_v2 sq i el c freq,
        OF pushImage_v2_buckets[of "mkEntry sq i el" c]] by blast
  obtain c2 f2 where "indexLoop pushImage_v2 sq (Suc i) es (c1, f1) = Inr (c2, f2)"
    and "mset (bucketElements c2) = mset (bucketElements c1) + mset es"
    using Cons.IH by blast
  then show ?case using s m by simp
qed

lemma processByType_v2_buckets:
  "\<exists>c. processByType_v2 sq = Inr c \<and> mset (bucketElements c) = mset sq"
proof -
  obtain c f where l: "indexLoop pushImage_v2 sq 0 sq (initialCollections sq, []) = Inr (c, f)"
    and m: "mset (bucketElements c) = mset (bucketElements (initialCollections sq)) + mset sq"
    using indexLoop_v2_buckets by blast
  have "bucketElements (initialCollections sq) = []"
    by (simp add: bucketElements_def allBuckets_def initialCollections_def)
  then show ?thesis
    using l m
    by (simp add: processByType_v2_def processByTypeWith_def bucketElements_def allBuckets_def)
qed

lemma processByType_v2_roundTrip:
  assumes "sorted_wrt (<) (map position sq)"
  shows "\<exists>c. processByType_v2 sq = Inr c \<and> mset (bucketElements c) = mset sq \<and> roundTrip c = sq"
proof -
  obtain c where c: "processByType_v2 sq = Inr c" and m: "mset (bucketElements c) = mset sq"
    using processByType_v2_buckets by blast
  have "sort_key position (bucketElements c) = sq"
    using sort_key_of_permutation[OF m assms] .
  then show ?thesis using c m by (simp add: roundTrip_def bucketElements_def)
qed

lemma pushImage_v1_buckets:
  assumes keys: "map fst (byImages c) = declaredRoles" and role: "role (elem e) \<noteq> Icon"
  shows "\<exists>c'. pushImage_v1 e c = Inr c' \<and> map fst (byImages c') = declaredRoles
        \<and> mset (bucketElements c') = mset (bucketElements c) + {#elem e#}"
proof -
  let ?k = "roleName (role (elem e))"
  have "?k \<in> set (map fst (byImages c))"
    using role unfolding keys by (cases "role (elem e)") (simp_all add: declaredRoles_def)
  then obtain b where b: "map_of (byImages c) ?k = Some b"
    by (metis map_of_eq_None_iff not_Some_eq set_map)
  have "mset (concat (map snd (setKey ?k (b @ [e]) (byImages c))))
          = mset (concat (map snd (byImages c))) + {#e#}"
    using b by (rule setKey_present)
  then have "mset (map elem (concat (map snd (setKey ?k (b @ [e]) (byImages c)))))
          = mset (map elem (concat (map snd (byImages c)))) + {#elem e#}"
    by (metis image_mset_single image_mset_union mset_map)
  then show ?thesis
    using b keys setKey_keys[OF b, of "b @ [e]"]
    by (simp add: pushImage_v1_def Let_def bucketElements_images bucketElements_split)
qed

lemma pushImage_v1_icon:
  assumes keys: "map fst (byImages c) = declaredRoles" and role: "role (elem e) = Icon"
  shows "pushImage_v1 e c = Inl TypeError"
proof -
  have "''icon'' \<notin> set (map fst (byImages c))"
    unfolding keys by (simp add: declaredRoles_def)
  then have "map_of (byImages c) ''icon'' = None"
    by (metis map_of_eq_None_iff set_map)
  then show ?thesis
    using role by (simp add: pushImage_v1_def Let_def)
qed

lemma indexStep_v1_buckets:
  assumes keys: "map fst (byImages c) = declaredRoles" and ok: "\<not> iconImage el"
  shows "\<exists>c' freq'. indexStep pushImage_v1 sq i el (c, freq) = Inr (c', freq')
        \<and> map fst (byImages c') = declaredRoles
        \<and> mset (bucketElements c') = mset (bucketElements c) + {#el#}"
proof (cases "etype el")
  case TImage
  then have "role (elem (mkEntry sq i el)) \<noteq> Icon"
    using ok by (cases el) (simp_all add: mkEntry_def)
  from pushImage_v1_buckets[OF keys this]
  obtain c' where "pushImage_v1 (mkEntry sq i el) c = Inr c'"
    and "map fst (byImages c') = declaredRoles"
    and "mset (bucketElements c') = mset (bucketElements c) + {#el#}"
    by (auto simp: mkEntry_def)
  then show ?thesis
    using TImage by (simp add: indexStep_def Let_def)
qed (simp_all add: indexStep_def Let_def bucketElements_split mkEntry_def keys)

lemma indexStep_v1_icon:
  assumes keys: "map fst (byImages c) = declaredRoles" and icon: "iconImage el"
  shows "indexStep pushImage_v1 sq i el (c, freq) = Inl TypeError"
proof -
  have "etype el = TImage" and "role (elem (mkEntry sq i el)) = Icon"
    using icon by (cases el; simp add: mkEntry_def)+
  then show ?thesis
    using pushImage_v1_icon[OF keys, of "mkEntry sq i el"]
    by (simp add: indexStep_def Let_def)
qed

lemma indexLoop_v1_buckets:
  assumes "map fst (byImages c) = declaredRoles" and "list_all (\<lambda>el. \<not> iconImage el) es"
  shows "\<exists>c' freq'. indexLoop pushImage_v1 sq i es (c, freq) = Inr (c', freq')
        \<and> mset (bucketElements c') = mset (bucketElements c) + mset es"
  using assms
proof (induction es arbitrary: i c freq)
  case Nil
  show ?case by simp
next
  case (Cons el es)
  have ok: "\<not> iconImage el" and rest: "list_all (\<lambda>el. \<not> iconImage el) es"
    using Cons.prems(2) by simp_all
  obtain c1 f1 where s: "indexStep pushImage_v1 sq i el (c, freq) = Inr (c1, f1)"
    and k: "map fst (byImages c1) = declaredRoles"
    and m: "mset (bucketElements c1) = mset (bucketElements c) + {#el#}"
    using indexStep_v1_buckets[OF Cons.prems(1) ok] by blast
  obtain c2 f2 where "indexLoop pushImage_v1 sq (Suc i) es (c1, f1) = Inr (c2, f2)"
    and "mset (bucketElements c2) = mset (bucketElements c1) + mset es"
    using Cons.IH[OF k rest] by blast
  then show ?case using s m by simp
qed

lemma indexLoop_v1_icon:
  assumes "map fst (byImages c) = declaredRoles" and "list_ex iconImage es"
  shows "indexLoop pushImage_v1 sq i es (c, freq) = Inl TypeError"
  using assms
proof (induction es arbitrary: i c freq)
  case Nil
  then show ?case by simp
next
  case (Cons el es)
  show ?case
  proof (cases "iconImage el")
    case True
    then show ?thesis
      using indexStep_v1_icon[OF Cons.prems(1)] by simp
  next
    case False
    then have rest: "list_ex iconImage es"
      using Cons.prems(2) by simp
    obtain c1 f1 where s: "indexStep pushImage_v1 sq i el (c, freq) = Inr (c1, f1)"
      and k: "map fst (byImages c1) = declaredRoles"
      using indexStep_v1_buckets[OF Cons.prems(1) False] by blast
    show ?thesis
      using s Cons.IH[OF k rest] by simp
  qed
qed

lemma initialCollections_keys: "map fst (byImages (initialCollections sq)) = declaredRoles"
  by (simp add: initialCollections_def declaredRoles_def)

lemma processByType_v1_throws_on_icon:
  "list_ex iconImage sq \<Longrightarrow> processByType_v1 sq = Inl TypeError"
  by (simp add: processByType_v1_def processByTypeWith_def
      indexLoop_v1_icon[OF initialCollections_keys])

lemma processByType_v1_roundTrip:
  assumes ord: "sorted_wrt (<) (map position sq)"
    and ok: "list_all (\<lambda>el. \<not> iconImage el) sq"
  shows "\<exists>c. processByType_v1 sq = Inr c \<and> mset (bucketElements c) = mset sq \<and> roundTrip c = sq"
proof -
  obtain c f where l: "indexLoop pushImage_v1 sq 0 sq (initialCollections sq, []) = Inr (c, f)"
    and m: "mset (bucketElements c) = mset (bucketElements (initialCollections sq)) + mset sq"
    using indexLoop_v1_buckets[OF initialCollections_keys ok] by blast
  have "bucketElements (initialCollections sq) = []"
    by (simp add: bucketElements_def allBuckets_def initialCollections_def)
  then have m': "mset (bucketElements c) = mset sq"
    using m by simp
  let ?c = "c\<lparr> byMetadata := (byMetadata c)\<lparr> dominantType := dominant f 0 None \<rparr> \<rparr>"
  have r: "processByType_v1 sq = Inr ?c"
    using l by (simp add: processByType_v1_def processByTypeWith_def)
  have b: "bucketElements ?c = bucketElements c"
    by (simp add: bucketElements_def allBuckets_def)
  have "sort_key position (bucketElements c) = sq"
    using sort_key_of_permutation[OF m' ord] .
  then show ?thesis
    using r b m' by (simp add: roundTrip_def)
qed

subsection \<open>The general results at the examples\<close>

lemma processByType_v1_roundTrip_instance:
  "\<exists>c. processByType_v1 heroSequence = Inr c \<and> roundTrip c = heroSequence"
  using processByType_v1_roundTrip[of heroSequence]
  by (auto simp: heroSequence_def)

lemma processByType_v2_roundTrip_instance:
  "\<exists>c. processByType_v2 featureSequence = Inr c \<and> roundTrip c = featureSequence"
  using processByType_v2_roundTrip[of featureSequence]
  by (auto simp: featureSequence_def)

lemma processByType_v1_throws_instance: "processByType_v1 featureSequence = Inl TypeError"
  by (rule processByType_v1_throws_on_icon) (simp add: featureSequence_def)

subsection \<open>The claims about the type indexer\<close>

text \<open>
  Claim C7. Every element of the sequence should sit in exactly one bucket of the
  object that \<^verbatim>\<open>processByType\<close> returns, and the buckets, sorted by position, should
  give the sequence back. \<^verbatim>\<open>src/parser/types.js\<close> returns no object for a sequence
  with an image of role \<^verbatim>\<open>icon\<close>: the role buckets are \<^verbatim>\<open>background\<close>, \<^verbatim>\<open>content\<close>,
  \<^verbatim>\<open>gallery\<close> and \<^verbatim>\<open>icons\<close>, so \<^verbatim>\<open>collections.images["icon"]\<close> is undefined and
  \<^verbatim>\<open>push\<close> throws.
\<close>

theorem processByType_v1_no_index_for_icon:
  "processByType_v1 [ImageE Icon (Some ''./icons/write.svg'') ''pen-tool'' None 0]
     = Inl TypeError"
  by (simp add: processByType_v1_def processByTypeWith_def indexStep_def pushImage_v1_def
      initialCollections_def mkEntry_def)

text \<open>
  Claim C10. An image of role \<^verbatim>\<open>icon\<close> should be placed in the declared bucket
  \<^verbatim>\<open>images.icons\<close>. On the features section of the parser test
  \<^verbatim>\<open>src/parser/types.js\<close> throws, and the other copy of the file creates a fifth
  bucket \<^verbatim>\<open>icon\<close> for the image and leaves \<^verbatim>\<open>icons\<close> empty.
\<close>

theorem icon_image_misses_icons_bucket:
  "processByType_v1 featureSequence = Inl TypeError
   \<and> (case processByType_v2 featureSequence of
         Inl e \<Rightarrow> []
       | Inr c \<Rightarrow> map (\<lambda>kv. (fst kv, map elem (snd kv))) (byImages c))
     = [(''background'', []), (''content'', []), (''gallery'', []), (''icons'', []),
        (''icon'', [ImageE Icon (Some ''./icons/write.svg'') ''pen-tool'' None 3])]"
  by code_simp

section \<open>Properties of the validator\<close>

subsection \<open>What the validator reports\<close>

text \<open>
  \<^verbatim>\<open>findNearbyHeading\<close> finds a heading exactly when one lies at an index from
  \<open>p - 2\<close> to \<open>p + 1\<close>, for an element of position \<open>p\<close>; the index \<open>p + 2\<close>
  is outside the loop.
\<close>

lemma findNearbyHeading_None_iff:
  "findNearbyHeading el sq = None \<longleftrightarrow>
     (\<forall>i. position el - 2 \<le> i \<and> i < min (length sq) (position el + 2) \<longrightarrow> \<not> isHeading (sq ! i))"
  by (auto simp: findNearbyHeading_def Let_def find_None_iff)

lemma findNearbyHeading_window:
  "findNearbyHeading el sq \<noteq> None \<longleftrightarrow>
     (\<exists>i. position el - 2 \<le> i \<and> i \<le> position el + 1 \<and> i < length sq \<and> isHeading (sq ! i))"
  unfolding findNearbyHeading_None_iff by auto

text \<open>
  The passes of the validator in closed form. The orphan check reports the elements whose index is no
  position of a group's content, and for a page with a sequence the whole validator
  reports each of them twice.
\<close>

lemma backgroundLoop_suggestions:
  "backgroundLoop bucket (Some sq) r =
     Inr (r\<lparr> suggestions := suggestions r @ map orphanedBackground (farFromHeading sq bucket) \<rparr>)"
  by (induction bucket arbitrary: r) (simp_all add: farFromHeading_def pushSuggestion_def)

lemma orphanLoop_warnings:
  "orphanLoop (groupedPositions g) sq i r =
     r\<lparr> warnings := warnings r @ map orphanedContent (uncovered g i sq) \<rparr>"
  by (induction sq arbitrary: i r) (simp_all add: uncovered_def pushWarning_def)

lemma hierarchyLoop_results:
  "errors (hierarchyLoop hs l r) = errors r \<and> suggestions (hierarchyLoop hs l r) = suggestions r
   \<and> ofKind ''orphaned_content'' (warnings (hierarchyLoop hs l r))
       = ofKind ''orphaned_content'' (warnings r)"
  by (induction hs arbitrary: l r) (simp_all add: pushWarning_def ofKind_def)

lemma validateHeadingHierarchy_results:
  "errors (validateHeadingHierarchy hs r) = errors r
   \<and> suggestions (validateHeadingHierarchy hs r) = suggestions r
   \<and> ofKind ''orphaned_content'' (warnings (validateHeadingHierarchy hs r))
       = ofKind ''orphaned_content'' (warnings r)"
proof (cases "hs = []")
  case True
  then show ?thesis
    by (simp add: validateHeadingHierarchy_def pushWarning_def ofKind_def)
next
  case False
  then show ?thesis
    using hierarchyLoop_results[of hs 0 r] by (simp add: validateHeadingHierarchy_def)
qed

lemma emptyGroupsLoop_results:
  "errors (emptyGroupsLoop gs i r) = errors r \<and> suggestions (emptyGroupsLoop gs i r) = suggestions r
   \<and> ofKind ''orphaned_content'' (warnings (emptyGroupsLoop gs i r))
       = ofKind ''orphaned_content'' (warnings r)"
  by (induction gs arbitrary: i r) (simp_all add: pushWarning_def ofKind_def)

lemma validateFrontmatter_results:
  "warnings (validateFrontmatter c r) = warnings r
   \<and> suggestions (validateFrontmatter c r) = suggestions r"
  by (simp add: validateFrontmatter_def pushError_def Let_def)

lemma ofKind_orphanedContent:
  "ofKind ''orphaned_content'' (map orphanedContent es) = map orphanedContent es"
  by (induction es) (simp_all add: ofKind_def orphanedContent_def)

lemma ofKind_append: "ofKind k (xs @ ys) = ofKind k xs @ ofKind k ys"
  by (simp add: ofKind_def)

lemma ofKind_orphanedBackground:
  "ofKind ''orphaned_background'' (map orphanedBackground es) = map orphanedBackground es"
  by (induction es) (simp_all add: ofKind_def orphanedBackground_def)

lemma validateContent_reports:
  assumes sq: "cSequence (scontent c) = Some sq"
    and bg: "map_of (byImages (cByType (scontent c))) ''background'' = Some bucket"
  shows "\<exists>r. validateContent c = Inr r
     \<and> ofKind ''orphaned_content'' (warnings r)
         = map orphanedContent (uncovered (cGroups (scontent c)) 0 sq)
           @ map orphanedContent (uncovered (cGroups (scontent c)) 0 sq)
     \<and> ofKind ''orphaned_background'' (suggestions r)
         = map orphanedBackground (farFromHeading sq bucket)"
proof -
  let ?g = "cGroups (scontent c)"
  let ?U = "map orphanedContent (uncovered ?g 0 sq)"
  let ?F = "map orphanedBackground (farFromHeading sq bucket)"
  define r0 where "r0 = validateFrontmatter c \<lparr> errors = [], warnings = [], suggestions = [] \<rparr>"
  define r2 where "r2 = emptyGroupsLoop (items ?g) 0
                          (validateHeadingHierarchy (byHeadings (cByType (scontent c))) r0)"
  define r3 where "r3 = r2\<lparr> warnings := warnings r2 @ ?U \<rparr>"
  define r4 where "r4 = r3\<lparr> suggestions := suggestions r3 @ ?F \<rparr>"
  define r5 where "r5 = (case main ?g of
          Some m \<Rightarrow>
            if title (headings m) = None
            then pushWarning \<lparr> dtype = ''no_main_title'',
                    message = ''Main content group has no title'', location = None \<rparr> r4
            else r4
        | None \<Rightarrow>
            pushSuggestion \<lparr> dtype = ''no_main_group'',
              message = ''Content has no clear main group'', location = None \<rparr> r4)"
  define r6 where "r6 = r5\<lparr> warnings := warnings r5 @ ?U \<rparr>"
  have w0: "warnings r0 = []" and s0: "suggestions r0 = []"
    using validateFrontmatter_results[of c "\<lparr> errors = [], warnings = [], suggestions = [] \<rparr>"]
    by (simp_all add: r0_def)
  have w2: "ofKind ''orphaned_content'' (warnings r2) = []" and s2: "suggestions r2 = []"
    using emptyGroupsLoop_results[of "items ?g" 0
        "validateHeadingHierarchy (byHeadings (cByType (scontent c))) r0"]
      validateHeadingHierarchy_results[of "byHeadings (cByType (scontent c))" r0] w0 s0
    by (simp_all add: r2_def ofKind_def)
  have struct: "validateStructure (scontent c) r0 = Inr r3"
    by (simp add: validateStructure_def validateOrphanedContent_def sq orphanLoop_warnings
        r3_def r2_def)
  have w5: "ofKind ''orphaned_content'' (warnings r5) = ?U"
    using w2
    by (simp add: r5_def r4_def r3_def pushWarning_def pushSuggestion_def ofKind_append
        ofKind_orphanedContent split: option.splits)
      (simp add: ofKind_def)
  have s5: "ofKind ''orphaned_background'' (suggestions r5) = ?F"
    using s2
    by (simp add: r5_def r4_def r3_def pushWarning_def pushSuggestion_def ofKind_append
        ofKind_orphanedBackground split: option.splits)
      (simp add: ofKind_def)
  have relationships: "validateRelationships (scontent c) r3 = Inr r6"
    unfolding r6_def r5_def r4_def
    by (simp add: validateRelationships_def bg sq backgroundLoop_suggestions
        validateContentGroups_def validateOrphanedContent_def orphanLoop_warnings)
  have "validateContent c = Inr r6"
    using struct relationships by (simp add: validateContent_def r0_def)
  moreover have "ofKind ''orphaned_content'' (warnings r6) = ?U @ ?U"
    using w5 by (simp add: r6_def ofKind_append ofKind_orphanedContent)
  moreover have "ofKind ''orphaned_background'' (suggestions r6) = ?F"
    using s5 by (simp add: r6_def)
  ultimately show ?thesis by blast
qed

subsection \<open>The claims about the validator\<close>

text \<open>
  The structure and the type index of \<open>titledPage\<close> are what the first grouping
  version and the type indexer return for its sequence.
\<close>

lemma titledPage_groups:
  "processGroups_v1 [Heading 1 ''Title'' 0 [], Paragraph ''Body'' 1]
     = cGroups (scontent titledPage)"
  by (simp add: titledPage_def processGroups_v1_def groupStep_v1_def closeGroup_v1_def
      addGroupToStructure_v1_def isMainGroup_v1_def createNewGroup_v1_def
      shouldStartNewGroup_v1_def addHeadingToGroup_v1_def secondPass_v1_def)

lemma titledPage_byType:
  "processByType_v1 [Heading 1 ''Title'' 0 [], Paragraph ''Body'' 1]
     = Inr (cByType (scontent titledPage))"
  by code_simp

text \<open>The closed form at \<open>titledPage\<close>.\<close>

lemma validateContent_reports_instance:
  "\<exists>r. validateContent titledPage = Inr r
     \<and> ofKind ''orphaned_content'' (warnings r)
         = [orphanedContent (Heading 1 ''Title'' 0 []), orphanedContent (Heading 1 ''Title'' 0 [])]"
proof -
  have sq: "cSequence (scontent titledPage) = Some [Heading 1 ''Title'' 0 [], Paragraph ''Body'' 1]"
    by (simp add: titledPage_def)
  have bg: "map_of (byImages (cByType (scontent titledPage))) ''background'' = Some []"
    by (simp add: titledPage_def initialCollections_def)
  have u: "uncovered (cGroups (scontent titledPage)) 0
             [Heading 1 ''Title'' 0 [], Paragraph ''Body'' 1] = [Heading 1 ''Title'' 0 []]"
    by (simp add: uncovered_def groupedPositions_def titledPage_def)
  show ?thesis
    using validateContent_reports[OF sq bg] u by auto
qed

text \<open>
  Claim C8. An element in the content of a group or in a heading slot should give no
  \<^verbatim>\<open>orphaned_content\<close> warning, and an element outside every group exactly one. On a
  page whose heading is the title of the main group and whose paragraph is the content
  of that group, the validator reports the heading as orphaned, and twice:
  \<^verbatim>\<open>validateOrphanedContent\<close> collects the positions of group contents only, and it
  is called from \<^verbatim>\<open>validateStructure\<close> and again from \<^verbatim>\<open>validateContentGroups\<close>.
\<close>

theorem title_heading_reported_orphaned_twice:
  "validateContent titledPage =
     Inr \<lparr> errors = [],
           warnings =
             [\<lparr> dtype = ''orphaned_content'',
                 message = ''heading element not part of any group'',
                 location = Some (AtElement (Heading 1 ''Title'' 0 [])) \<rparr>,
              \<lparr> dtype = ''orphaned_content'',
                 message = ''heading element not part of any group'',
                 location = Some (AtElement (Heading 1 ''Title'' 0 [])) \<rparr>],
           suggestions = [] \<rparr>"
  by code_simp

text \<open>
  Claim C9. A background image should get the \<^verbatim>\<open>orphaned_background\<close> suggestion
  exactly when no heading lies at the positions \<open>p - 2\<close> to \<open>p + 2\<close>. The loop of
  \<^verbatim>\<open>findNearbyHeading\<close> stops before \<open>p + 2\<close>. For an image at position 0, a
  paragraph at 1 and a heading at 2 the validator makes the suggestion.
\<close>

theorem heading_two_after_background_not_found:
  "etype (backgroundSequence ! 2) = THeading
   \<and> findNearbyHeading (backgroundSequence ! 0) backgroundSequence = None
   \<and> (case processByType_v1 backgroundSequence of
         Inl e \<Rightarrow> []
       | Inr c \<Rightarrow>
           (case validateContent (backgroundPage (processGroups_v1 backgroundSequence) c) of
              Inl e \<Rightarrow> []
            | Inr r \<Rightarrow> map dtype (suggestions r)))
     = [''orphaned_background'']"
  by code_simp

end
